theory Spec2Isabelle
  imports Main "HOL-Library.Word"
begin

section \<open>Car rental record store: the model\<close>

text \<open>
  The program is \<^verbatim>\<open>src/car_rental.py\<close>. A Python \<^verbatim>\<open>str\<close> is modelled as the
  list of its Unicode code points, a \<^verbatim>\<open>bytes\<close> object as a list of 8-bit words, a
  Python \<^verbatim>\<open>int\<close> as \<open>int\<close>, and a Python \<^verbatim>\<open>float\<close> as the 64-bit pattern of
  its IEEE-754 binary64 value. Every exception the code can raise is a value of
  \<open>error\<close>; a function that can raise returns \<open>error + 'a\<close>.
\<close>

type_synonym byte = "8 word"
type_synonym bytes = "byte list"
type_synonym str = "nat list"
type_synonym f64 = "64 word"

datatype error =
    UnicodeEncodeError | UnicodeDecodeError | StructError | ValueError
  | OverflowError | FileNotFoundError | OSError

text \<open>An ASCII literal of the source, as a \<^verbatim>\<open>str\<close>.\<close>

definition ascii :: "string \<Rightarrow> str" where
  "ascii s = map of_char s"

subsection \<open>UTF-8, as \<^verbatim>\<open>str.encode('utf-8')\<close> and \<^verbatim>\<open>bytes.decode('utf-8', errors)\<close>\<close>

text \<open>
  \<^verbatim>\<open>encode\<close> writes one to four bytes per code point and raises
  \<^verbatim>\<open>UnicodeEncodeError\<close> on a surrogate (U+D800 to U+DFFF). A Python string holds no
  value above U+10FFFF; the model rejects such a value like a surrogate.
\<close>

definition encode_char :: "nat \<Rightarrow> error + nat list" where
  "encode_char cp =
    (if cp < 128 then Inr [cp]
     else if cp < 2048 then Inr [192 + cp div 64, 128 + cp mod 64]
     else if cp < 65536 then
       (if 55296 \<le> cp \<and> cp < 57344 then Inl UnicodeEncodeError
        else Inr [224 + cp div 4096, 128 + cp div 64 mod 64, 128 + cp mod 64])
     else if cp < 1114112 then
       Inr [240 + cp div 262144, 128 + cp div 4096 mod 64, 128 + cp div 64 mod 64,
            128 + cp mod 64]
     else Inl UnicodeEncodeError)"

fun encode_loop :: "str \<Rightarrow> error + nat list" where
  "encode_loop [] = Inr []"
| "encode_loop (cp # s) =
    (case encode_char cp of Inl e \<Rightarrow> Inl e
     | Inr b \<Rightarrow> (case encode_loop s of Inl e \<Rightarrow> Inl e | Inr r \<Rightarrow> Inr (b @ r)))"

definition utf8_encode :: "str \<Rightarrow> error + bytes" where
  "utf8_encode s = (case encode_loop s of Inl e \<Rightarrow> Inl e | Inr b \<Rightarrow> Inr (map of_nat b))"

text \<open>
  The decoder follows CPython: one step reads the sequence at the head of the input and
  reports a code point with its length, an invalid sequence with the number of bytes the
  error covers, or an unexpected end of data (the error then covers all that is left).
  The error handler decides what happens at an error: \<open>Strict\<close> raises, \<open>Ignore\<close>
  skips the bytes the error covers.
\<close>

datatype errors = Strict | Ignore

datatype utf8_result = Decoded nat nat | Invalid nat | UnexpectedEnd

definition continuation :: "nat \<Rightarrow> bool" where
  "continuation b = (128 \<le> b \<and> b < 192)"

definition utf8_step :: "nat \<Rightarrow> nat list \<Rightarrow> utf8_result" where
  "utf8_step ch bs =
    (if ch < 128 then Decoded ch 1
     else if ch < 224 then
       (if ch < 194 then Invalid 1
        else case bs of [] \<Rightarrow> UnexpectedEnd
          | ch2 # _ \<Rightarrow> if \<not> continuation ch2 then Invalid 1
                       else Decoded (ch * 64 + ch2 - 12416) 2)
     else if ch < 240 then
       (case bs of [] \<Rightarrow> UnexpectedEnd
        | [ch2] \<Rightarrow>
            if \<not> continuation ch2 \<or> (if ch2 < 160 then ch = 224 else ch = 237)
            then Invalid 1 else UnexpectedEnd
        | ch2 # ch3 # _ \<Rightarrow>
            if \<not> continuation ch2 then Invalid 1
            else if ch = 224 \<and> ch2 < 160 then Invalid 1
            else if ch = 237 \<and> 160 \<le> ch2 then Invalid 1
            else if \<not> continuation ch3 then Invalid 2
            else Decoded (ch * 4096 + ch2 * 64 + ch3 - 925824) 3)
     else if ch < 245 then
       (case bs of [] \<Rightarrow> UnexpectedEnd
        | [ch2] \<Rightarrow>
            if \<not> continuation ch2 \<or> (if ch2 < 144 then ch = 240 else ch = 244)
            then Invalid 1 else UnexpectedEnd
        | [ch2, ch3] \<Rightarrow>
            if \<not> continuation ch2 \<or> (if ch2 < 144 then ch = 240 else ch = 244)
            then Invalid 1
            else if \<not> continuation ch3 then Invalid 2 else UnexpectedEnd
        | ch2 # ch3 # ch4 # _ \<Rightarrow>
            if \<not> continuation ch2 then Invalid 1
            else if ch = 240 \<and> ch2 < 144 then Invalid 1
            else if ch = 244 \<and> 144 \<le> ch2 then Invalid 1
            else if \<not> continuation ch3 then Invalid 2
            else if \<not> continuation ch4 then Invalid 3
            else Decoded (ch * 262144 + ch2 * 4096 + ch3 * 64 + ch4 - 63447168) 4)
     else Invalid 1)"

fun decode_loop :: "errors \<Rightarrow> nat list \<Rightarrow> error + str" where
  "decode_loop h [] = Inr []"
| "decode_loop h (ch # bs) =
    (case utf8_step ch bs of
       Decoded cp n \<Rightarrow>
         (case decode_loop h (drop (n - 1) bs) of Inl e \<Rightarrow> Inl e | Inr s \<Rightarrow> Inr (cp # s))
     | Invalid n \<Rightarrow>
         (case h of Strict \<Rightarrow> Inl UnicodeDecodeError
          | Ignore \<Rightarrow> decode_loop h (drop (n - 1) bs))
     | UnexpectedEnd \<Rightarrow>
         (case h of Strict \<Rightarrow> Inl UnicodeDecodeError | Ignore \<Rightarrow> Inr []))"

definition utf8_decode :: "errors \<Rightarrow> bytes \<Rightarrow> error + str" where
  "utf8_decode h b = decode_loop h (map unat b)"

subsection \<open>Fixed-length text fields\<close>

text \<open>
  \<^verbatim>\<open>b[:length]\<close> with Python's reading of a negative bound, and \<^verbatim>\<open>b' ' * k\<close>,
  which is empty for a negative \<open>k\<close>. In \<^verbatim>\<open>fixed_bytes\<close> the argument is a string, so
  \<^verbatim>\<open>s or ''\<close> is \<open>s\<close>.
\<close>

definition slice_to :: "int \<Rightarrow> 'a list \<Rightarrow> 'a list" where
  "slice_to n xs = (if 0 \<le> n then take (nat n) xs else take (nat (int (length xs) + n)) xs)"

definition fixed_bytes :: "str \<Rightarrow> int \<Rightarrow> error + bytes" where
  "fixed_bytes s len =
    (case utf8_encode s of Inl e \<Rightarrow> Inl e
     | Inr enc \<Rightarrow>
         let b = slice_to len enc
         in Inr (b @ replicate (nat (len - int (length b))) 32))"

definition rstrip :: "bytes \<Rightarrow> bytes" where
  "rstrip b = rev (dropWhile (\<lambda>x. x = 32) (rev b))"

definition bytes_to_str :: "bytes \<Rightarrow> error + str" where
  "bytes_to_str b = utf8_decode Ignore (rstrip b)"

subsection \<open>\<^verbatim>\<open>struct\<close> formats\<close>

text \<open>
  The formats are little-endian without alignment: the fields follow one another.
  \<^verbatim>\<open>Ns\<close> takes the first \<open>N\<close> bytes of its argument and fills with zero bytes,
  \<^verbatim>\<open>I\<close> is an unsigned 32-bit integer (\<^verbatim>\<open>struct.error\<close> outside its range),
  \<^verbatim>\<open>d\<close> the eight bytes of a double.
\<close>

fun le_bytes :: "nat \<Rightarrow> nat \<Rightarrow> bytes" where
  "le_bytes 0 v = []"
| "le_bytes (Suc k) v = of_nat (v mod 256) # le_bytes k (v div 256)"

fun le_value :: "bytes \<Rightarrow> nat" where
  "le_value [] = 0"
| "le_value (b # bs) = unat b + 256 * le_value bs"

definition pack_s :: "nat \<Rightarrow> bytes \<Rightarrow> bytes" where
  "pack_s n b = take n b @ replicate (n - length b) 0"

definition pack_I :: "int \<Rightarrow> error + bytes" where
  "pack_I v = (if 0 \<le> v \<and> v < 4294967296 then Inr (le_bytes 4 (nat v)) else Inl StructError)"

definition pack_d :: "f64 \<Rightarrow> bytes" where
  "pack_d x = le_bytes 8 (unat x)"

definition unpack_I :: "bytes \<Rightarrow> int" where
  "unpack_I b = int (le_value b)"

definition unpack_d :: "bytes \<Rightarrow> f64" where
  "unpack_d b = of_nat (le_value b)"

text \<open>The bytes of a block from offset \<open>i\<close>, \<open>n\<close> of them.\<close>

definition field :: "nat \<Rightarrow> nat \<Rightarrow> bytes \<Rightarrow> bytes" where
  "field i n b = take n (drop i b)"

definition CAR_RECORD_SIZE :: nat where
  "CAR_RECORD_SIZE = 10 + 10 + 20 + 30 + 4 + 8 + 10 + 3"

definition CUST_RECORD_SIZE :: nat where
  "CUST_RECORD_SIZE = 10 + 50 + 13 + 15 + 50"

definition CONTRACT_RECORD_SIZE :: nat where
  "CONTRACT_RECORD_SIZE = 10 + 10 + 10 + 10 + 10 + 8 + 10"

subsection \<open>Models\<close>

record Car =
  car_id :: str
  plate :: str
  brand :: str
  model :: str
  year :: int
  price_per_day :: f64
  status :: str
  rented :: str

record Customer =
  cust_id :: str
  name :: str
  id_card :: str
  phone :: str
  email :: str

record Contract =
  contract_id :: str
  contract_car_id :: str
  contract_cust_id :: str
  start_date :: str
  end_date :: str
  total_cost :: f64
  contract_status :: str

text \<open>
  Sequencing of calls that can raise: the first exception ends the evaluation.
\<close>

definition and_then :: "error + 'a \<Rightarrow> ('a \<Rightarrow> error + 'b) \<Rightarrow> error + 'b" where
  "and_then m f = (case m of Inl e \<Rightarrow> Inl e | Inr x \<Rightarrow> f x)"

text \<open>
  \<^verbatim>\<open>Car.pack\<close>: the arguments of \<^verbatim>\<open>struct.pack\<close> are evaluated left to right, so
  an unencodable text field raises before the range of the year is checked.
\<close>

definition Car_pack :: "Car \<Rightarrow> error + bytes" where
  "Car_pack c =
    and_then (fixed_bytes (car_id c) 10) (\<lambda>f0.
    and_then (fixed_bytes (plate c) 10) (\<lambda>f1.
    and_then (fixed_bytes (brand c) 20) (\<lambda>f2.
    and_then (fixed_bytes (model c) 30) (\<lambda>f3.
    and_then (fixed_bytes (status c) 10) (\<lambda>f6.
    and_then (fixed_bytes (rented c) 3) (\<lambda>f7.
    and_then (pack_I (year c)) (\<lambda>f4.
      Inr (pack_s 10 f0 @ pack_s 10 f1 @ pack_s 20 f2 @ pack_s 30 f3 @ f4
           @ pack_d (price_per_day c) @ pack_s 10 f6 @ pack_s 3 f7))))))))"

definition Car_unpack :: "bytes \<Rightarrow> error + Car" where
  "Car_unpack b =
    (if length b \<noteq> CAR_RECORD_SIZE then Inl StructError
     else
       and_then (bytes_to_str (field 0 10 b)) (\<lambda>f0.
       and_then (bytes_to_str (field 10 10 b)) (\<lambda>f1.
       and_then (bytes_to_str (field 20 20 b)) (\<lambda>f2.
       and_then (bytes_to_str (field 40 30 b)) (\<lambda>f3.
       and_then (bytes_to_str (field 82 10 b)) (\<lambda>f6.
       and_then (bytes_to_str (field 92 3 b)) (\<lambda>f7.
         Inr \<lparr>car_id = f0, plate = f1, brand = f2, model = f3,
              year = unpack_I (field 70 4 b), price_per_day = unpack_d (field 74 8 b),
              status = f6, rented = f7\<rparr>)))))))"

definition Customer_pack :: "Customer \<Rightarrow> error + bytes" where
  "Customer_pack c =
    and_then (fixed_bytes (cust_id c) 10) (\<lambda>f0.
    and_then (fixed_bytes (name c) 50) (\<lambda>f1.
    and_then (fixed_bytes (id_card c) 13) (\<lambda>f2.
    and_then (fixed_bytes (phone c) 15) (\<lambda>f3.
    and_then (fixed_bytes (email c) 50) (\<lambda>f4.
      Inr (pack_s 10 f0 @ pack_s 50 f1 @ pack_s 13 f2 @ pack_s 15 f3 @ pack_s 50 f4))))))"

definition Customer_unpack :: "bytes \<Rightarrow> error + Customer" where
  "Customer_unpack b =
    (if length b \<noteq> CUST_RECORD_SIZE then Inl StructError
     else
       and_then (bytes_to_str (field 0 10 b)) (\<lambda>f0.
       and_then (bytes_to_str (field 10 50 b)) (\<lambda>f1.
       and_then (bytes_to_str (field 60 13 b)) (\<lambda>f2.
       and_then (bytes_to_str (field 73 15 b)) (\<lambda>f3.
       and_then (bytes_to_str (field 88 50 b)) (\<lambda>f4.
         Inr \<lparr>cust_id = f0, name = f1, id_card = f2, phone = f3, email = f4\<rparr>))))))"

definition Contract_pack :: "Contract \<Rightarrow> error + bytes" where
  "Contract_pack c =
    and_then (fixed_bytes (contract_id c) 10) (\<lambda>f0.
    and_then (fixed_bytes (contract_car_id c) 10) (\<lambda>f1.
    and_then (fixed_bytes (contract_cust_id c) 10) (\<lambda>f2.
    and_then (fixed_bytes (start_date c) 10) (\<lambda>f3.
    and_then (fixed_bytes (end_date c) 10) (\<lambda>f4.
    and_then (fixed_bytes (contract_status c) 10) (\<lambda>f6.
      Inr (pack_s 10 f0 @ pack_s 10 f1 @ pack_s 10 f2 @ pack_s 10 f3 @ pack_s 10 f4
           @ pack_d (total_cost c) @ pack_s 10 f6)))))))"

definition Contract_unpack :: "bytes \<Rightarrow> error + Contract" where
  "Contract_unpack b =
    (if length b \<noteq> CONTRACT_RECORD_SIZE then Inl StructError
     else
       and_then (bytes_to_str (field 0 10 b)) (\<lambda>f0.
       and_then (bytes_to_str (field 10 10 b)) (\<lambda>f1.
       and_then (bytes_to_str (field 20 10 b)) (\<lambda>f2.
       and_then (bytes_to_str (field 30 10 b)) (\<lambda>f3.
       and_then (bytes_to_str (field 40 10 b)) (\<lambda>f4.
       and_then (bytes_to_str (field 58 10 b)) (\<lambda>f6.
         Inr \<lparr>contract_id = f0, contract_car_id = f1, contract_cust_id = f2,
              start_date = f3, end_date = f4, total_cost = unpack_d (field 50 8 b),
              contract_status = f6\<rparr>)))))))"

section \<open>Repositories (file access)\<close>

text \<open>
  The file system is a map from a path to the content of the file at that path. A
  repository object holds a file name and a record size; its methods take the file
  system and return it with their result.

  Writing can fail at the operating system. \<^verbatim>\<open>overwrite_all_raw\<close> takes the point
  where it does: at the \<^verbatim>\<open>open\<close> of the temporary file, at a \<^verbatim>\<open>write\<close> (after the
  given number of records went through), at the close of the file, or at
  \<^verbatim>\<open>os.replace\<close>.
\<close>

type_synonym fs = "string \<Rightarrow> bytes option"

datatype fault = NoFault | FailOpen | FailWrite nat | FailClose | FailReplace

text \<open>
  \<^verbatim>\<open>BinaryRepository.__init__\<close>: the file is created empty when it does not exist.
\<close>

definition BinaryRepository_init :: "fs \<Rightarrow> string \<Rightarrow> fs" where
  "BinaryRepository_init files filename =
    (if files filename = None then files(filename \<mapsto> []) else files)"

text \<open>
  \<^verbatim>\<open>iterate_raw\<close>: \<^verbatim>\<open>f.read(recsize)\<close> returns the next \<open>recsize\<close> bytes, or fewer
  at the end of the file; the loop ends at an empty or short read.
\<close>

function iterate_raw :: "nat \<Rightarrow> bytes \<Rightarrow> bytes list" where
  "iterate_raw recsize content =
    (let b = take recsize content
     in if b = [] \<or> length b < recsize then []
        else b # iterate_raw recsize (drop recsize content))"
  by pat_completeness auto
termination
  by (relation "measure (\<lambda>(recsize, content). length content)") (auto simp: Let_def)

definition read_all_raw :: "fs \<Rightarrow> string \<Rightarrow> nat \<Rightarrow> error + bytes list" where
  "read_all_raw files filename recsize =
    (case files filename of None \<Rightarrow> Inl FileNotFoundError
     | Some content \<Rightarrow> Inr (iterate_raw recsize content))"

text \<open>
  The loop of \<^verbatim>\<open>overwrite_all_raw\<close> over the records, on the content of the temporary
  file; the counter is the number of writes left before the one that fails.
\<close>

fun write_records :: "bytes \<Rightarrow> bytes list \<Rightarrow> nat option \<Rightarrow> (error + unit) \<times> bytes" where
  "write_records written [] k = (Inr (), written)"
| "write_records written (r # rs) k =
    (case k of
       None \<Rightarrow> write_records (written @ r) rs None
     | Some 0 \<Rightarrow> (Inl OSError, written)
     | Some (Suc j) \<Rightarrow> write_records (written @ r) rs (Some j))"

definition overwrite_all_raw ::
  "fs \<Rightarrow> string \<Rightarrow> bytes list \<Rightarrow> fault \<Rightarrow> (error + unit) \<times> fs" where
  "overwrite_all_raw files filename records fault =
    (let tmp = filename @ ''.tmp'' in
     if fault = FailOpen then (Inl OSError, files)
     else
       case write_records [] records (case fault of FailWrite k \<Rightarrow> Some k | _ \<Rightarrow> None) of
         (Inl e, written) \<Rightarrow> (Inl e, files(tmp \<mapsto> written))
       | (Inr _, written) \<Rightarrow>
           if fault = FailClose \<or> fault = FailReplace
           then (Inl OSError, files(tmp \<mapsto> written))
           else (Inr (), (files(filename \<mapsto> written))(tmp := None)))"

text \<open>\<^verbatim>\<open>with open(self.filename, 'ab') as f: f.write(block)\<close>\<close>

definition append_raw :: "fs \<Rightarrow> string \<Rightarrow> bytes \<Rightarrow> fs" where
  "append_raw files filename block =
    files(filename \<mapsto> (case files filename of None \<Rightarrow> [] | Some content \<Rightarrow> content) @ block)"

text \<open>A list comprehension \<^verbatim>\<open>[f(b) for b in xs]\<close> whose \<open>f\<close> can raise.\<close>

fun comprehension :: "('a \<Rightarrow> error + 'b) \<Rightarrow> 'a list \<Rightarrow> error + 'b list" where
  "comprehension f [] = Inr []"
| "comprehension f (x # xs) =
    and_then (f x) (\<lambda>y. and_then (comprehension f xs) (\<lambda>ys. Inr (y # ys)))"

subsection \<open>\<^verbatim>\<open>CarRepository\<close>\<close>

definition CarRepository_all :: "fs \<Rightarrow> string \<Rightarrow> error + Car list" where
  "CarRepository_all files filename =
    and_then (read_all_raw files filename CAR_RECORD_SIZE) (comprehension Car_unpack)"

definition CarRepository_find :: "fs \<Rightarrow> string \<Rightarrow> str \<Rightarrow> error + Car option" where
  "CarRepository_find files filename cid =
    and_then (CarRepository_all files filename) (\<lambda>cs. Inr (find (\<lambda>c. car_id c = cid) cs))"

definition CarRepository_add :: "fs \<Rightarrow> string \<Rightarrow> Car \<Rightarrow> (error + bool) \<times> fs" where
  "CarRepository_add files filename car =
    (case CarRepository_find files filename (car_id car) of
       Inl e \<Rightarrow> (Inl e, files)
     | Inr (Some _) \<Rightarrow> (Inr False, files)
     | Inr None \<Rightarrow>
         (case Car_pack car of
            Inl e \<Rightarrow> (Inl e, append_raw files filename [])
          | Inr block \<Rightarrow> (Inr True, append_raw files filename block)))"

text \<open>
  The loop of \<^verbatim>\<open>CarRepository.update\<close> over the raw records, with its variables
  \<^verbatim>\<open>changed\<close> and \<^verbatim>\<open>out\<close>. \<^verbatim>\<open>new_car.pack()\<close> is called at each match.
\<close>

fun Car_update_loop ::
  "str \<Rightarrow> Car \<Rightarrow> bytes list \<Rightarrow> bool \<Rightarrow> bytes list \<Rightarrow> error + bool \<times> bytes list" where
  "Car_update_loop cid new_car [] changed out = Inr (changed, out)"
| "Car_update_loop cid new_car (b # raw) changed out =
    and_then (Car_unpack b) (\<lambda>c.
      if car_id c = cid
      then and_then (Car_pack new_car) (\<lambda>nb. Car_update_loop cid new_car raw True (out @ [nb]))
      else Car_update_loop cid new_car raw changed (out @ [b]))"

definition CarRepository_update ::
  "fs \<Rightarrow> string \<Rightarrow> str \<Rightarrow> Car \<Rightarrow> fault \<Rightarrow> (error + bool) \<times> fs" where
  "CarRepository_update files filename cid new_car fault =
    (case read_all_raw files filename CAR_RECORD_SIZE of
       Inl e \<Rightarrow> (Inl e, files)
     | Inr raw \<Rightarrow>
         (case Car_update_loop cid new_car raw False [] of
            Inl e \<Rightarrow> (Inl e, files)
          | Inr (changed, out) \<Rightarrow>
              if changed
              then (case overwrite_all_raw files filename out fault of
                      (Inl e, files') \<Rightarrow> (Inl e, files')
                    | (Inr _, files') \<Rightarrow> (Inr True, files'))
              else (Inr False, files)))"

fun Car_mark_deleted_loop ::
  "str \<Rightarrow> bytes list \<Rightarrow> bool \<Rightarrow> bytes list \<Rightarrow> error + bool \<times> bytes list" where
  "Car_mark_deleted_loop cid [] changed out = Inr (changed, out)"
| "Car_mark_deleted_loop cid (b # raw) changed out =
    and_then (Car_unpack b) (\<lambda>c.
      if car_id c = cid
      then and_then (Car_pack (c\<lparr>status := ascii ''Deleted''\<rparr>))
             (\<lambda>nb. Car_mark_deleted_loop cid raw True (out @ [nb]))
      else Car_mark_deleted_loop cid raw changed (out @ [b]))"

definition CarRepository_mark_deleted ::
  "fs \<Rightarrow> string \<Rightarrow> str \<Rightarrow> fault \<Rightarrow> (error + bool) \<times> fs" where
  "CarRepository_mark_deleted files filename cid fault =
    (case read_all_raw files filename CAR_RECORD_SIZE of
       Inl e \<Rightarrow> (Inl e, files)
     | Inr raw \<Rightarrow>
         (case Car_mark_deleted_loop cid raw False [] of
            Inl e \<Rightarrow> (Inl e, files)
          | Inr (changed, out) \<Rightarrow>
              if changed
              then (case overwrite_all_raw files filename out fault of
                      (Inl e, files') \<Rightarrow> (Inl e, files')
                    | (Inr _, files') \<Rightarrow> (Inr True, files'))
              else (Inr False, files)))"

subsection \<open>\<^verbatim>\<open>CustomerRepository\<close> and \<^verbatim>\<open>ContractRepository\<close>\<close>







text \<open>
  \<^verbatim>\<open>delete_customer\<close> of the menu, from the identifier it has read: the loop over the
  raw records with its variables \<^verbatim>\<open>found\<close> and \<^verbatim>\<open>out\<close>, then the rewrite. The result
  is \<^verbatim>\<open>found\<close> (the message the function prints).
\<close>

fun delete_customer_loop ::
  "str \<Rightarrow> bytes list \<Rightarrow> bool \<Rightarrow> bytes list \<Rightarrow> error + bool \<times> bytes list" where
  "delete_customer_loop cid [] found out = Inr (found, out)"
| "delete_customer_loop cid (b # raw) found out =
    and_then (Customer_unpack b) (\<lambda>c.
      if cust_id c = cid then delete_customer_loop cid raw True out
      else delete_customer_loop cid raw found (out @ [b]))"

definition delete_customer ::
  "fs \<Rightarrow> string \<Rightarrow> str \<Rightarrow> fault \<Rightarrow> (error + bool) \<times> fs" where
  "delete_customer files filename cid fault =
    (case read_all_raw files filename CUST_RECORD_SIZE of
       Inl e \<Rightarrow> (Inl e, files)
     | Inr raw \<Rightarrow>
         (case delete_customer_loop cid raw False [] of
            Inl e \<Rightarrow> (Inl e, files)
          | Inr (found, out) \<Rightarrow>
              if found
              then (case overwrite_all_raw files filename out fault of
                      (Inl e, files') \<Rightarrow> (Inl e, files')
                    | (Inr _, files') \<Rightarrow> (Inr True, files'))
              else (Inr False, files)))"

section \<open>Business logic\<close>

subsection \<open>Dates: \<^verbatim>\<open>parse_date\<close> and \<^verbatim>\<open>date_diff_days\<close>\<close>

text \<open>
  \<^verbatim>\<open>datetime.strptime(s, '%Y-%m-%d')\<close> matches the string against the pattern
  \<^verbatim>\<open>(\d\d\d\d)-(1[0-2]|0[1-9]|[1-9])-(3[0-1]|[1-2]\d|0[1-9]|[1-9]| [1-9])\<close> from its
  start, raises \<^verbatim>\<open>ValueError\<close> when the match fails or does not reach the end of the
  string, converts the three groups with \<^verbatim>\<open>int\<close> and builds the date, which raises
  \<^verbatim>\<open>ValueError\<close> for a year outside 1 to 9999 or a day the month does not have. In
  the pattern \<^verbatim>\<open>\d\<close> is any decimal digit of Unicode, and \<^verbatim>\<open>int\<close> reads such a digit
  by its value: the table of these digits belongs to Python, not to this program, and
  is the parameter \<open>dv\<close> (the decimal value of a code point that is a digit). The
  classes \<^verbatim>\<open>[0-2]\<close>, \<^verbatim>\<open>[1-9]\<close> hold ASCII digits only. No alternative of the month
  or of the day is a proper beginning of another match that could succeed later, so
  the first alternative that matches is the one the match keeps.
\<close>

datatype date = Date int int int

definition ascii_decimal :: "nat \<Rightarrow> nat option" where
  "ascii_decimal c = (if 48 \<le> c \<and> c \<le> 57 then Some (c - 48) else None)"

definition ascii_digit :: "nat \<Rightarrow> nat \<Rightarrow> nat \<Rightarrow> bool" where
  "ascii_digit lo hi c = (48 + lo \<le> c \<and> c \<le> 48 + hi)"

fun match_Y :: "(nat \<Rightarrow> nat option) \<Rightarrow> str \<Rightarrow> (int \<times> str) option" where
  "match_Y dv (a # b # c # d # rest) =
    (case dv a of None \<Rightarrow> None | Some p \<Rightarrow>
    (case dv b of None \<Rightarrow> None | Some q \<Rightarrow>
    (case dv c of None \<Rightarrow> None | Some r \<Rightarrow>
    (case dv d of None \<Rightarrow> None | Some t \<Rightarrow>
       Some (int (1000 * p + 100 * q + 10 * r + t), rest)))))"
| "match_Y dv s = None"

fun match_m :: "str \<Rightarrow> (int \<times> str) option" where
  "match_m (c1 # c2 # rest) =
    (if c1 = 49 \<and> ascii_digit 0 2 c2 then Some (int (10 + (c2 - 48)), rest)
     else if c1 = 48 \<and> ascii_digit 1 9 c2 then Some (int (c2 - 48), rest)
     else if ascii_digit 1 9 c1 then Some (int (c1 - 48), c2 # rest)
     else None)"
| "match_m [c1] = (if ascii_digit 1 9 c1 then Some (int (c1 - 48), []) else None)"
| "match_m [] = None"

fun match_d :: "(nat \<Rightarrow> nat option) \<Rightarrow> str \<Rightarrow> (int \<times> str) option" where
  "match_d dv (c1 # c2 # rest) =
    (if c1 = 51 \<and> ascii_digit 0 1 c2 then Some (int (30 + (c2 - 48)), rest)
     else if c1 = 49 \<or> c1 = 50 then
       (case dv c2 of Some v \<Rightarrow> Some (int (10 * (c1 - 48) + v), rest)
        | None \<Rightarrow> Some (int (c1 - 48), c2 # rest))
     else if c1 = 48 \<and> ascii_digit 1 9 c2 then Some (int (c2 - 48), rest)
     else if ascii_digit 1 9 c1 then Some (int (c1 - 48), c2 # rest)
     else if c1 = 32 \<and> ascii_digit 1 9 c2 then Some (int (c2 - 48), rest)
     else None)"
| "match_d dv [c1] = (if ascii_digit 1 9 c1 then Some (int (c1 - 48), []) else None)"
| "match_d dv [] = None"

definition match_char :: "nat \<Rightarrow> str \<Rightarrow> str option" where
  "match_char c s = (case s of [] \<Rightarrow> None | x # rest \<Rightarrow> if x = c then Some rest else None)"

definition is_leap :: "int \<Rightarrow> bool" where
  "is_leap y = (y mod 4 = 0 \<and> (y mod 100 \<noteq> 0 \<or> y mod 400 = 0))"

definition days_in_month :: "int \<Rightarrow> int \<Rightarrow> int" where
  "days_in_month y m =
    (if m = 2 \<and> is_leap y then 29
     else [31, 28, 31, 30, 31, 30, 31, 31, 30, 31, 30, 31] ! nat (m - 1))"

text \<open>\<^verbatim>\<open>datetime.date(year, month, day)\<close>\<close>

definition new_date :: "int \<Rightarrow> int \<Rightarrow> int \<Rightarrow> error + date" where
  "new_date y m d =
    (if 1 \<le> y \<and> y \<le> 9999 \<and> 1 \<le> m \<and> m \<le> 12 \<and> 1 \<le> d \<and> d \<le> days_in_month y m
     then Inr (Date y m d) else Inl ValueError)"

definition parse_date :: "(nat \<Rightarrow> nat option) \<Rightarrow> str \<Rightarrow> error + date" where
  "parse_date dv s =
    (case match_Y dv s of None \<Rightarrow> Inl ValueError | Some (y, s1) \<Rightarrow>
    (case match_char 45 s1 of None \<Rightarrow> Inl ValueError | Some s2 \<Rightarrow>
    (case match_m s2 of None \<Rightarrow> Inl ValueError | Some (m, s3) \<Rightarrow>
    (case match_char 45 s3 of None \<Rightarrow> Inl ValueError | Some s4 \<Rightarrow>
    (case match_d dv s4 of None \<Rightarrow> Inl ValueError | Some (d, s5) \<Rightarrow>
       if s5 = [] then new_date y m d else Inl ValueError)))))"

text \<open>
  The difference of two dates is the difference of their ordinals, the number of the
  day counted from 0001-01-01 as day 1 (\<^verbatim>\<open>date.toordinal\<close>).
\<close>

definition days_before_year :: "int \<Rightarrow> int" where
  "days_before_year y = (y - 1) * 365 + (y - 1) div 4 - (y - 1) div 100 + (y - 1) div 400"

definition days_before_month :: "int \<Rightarrow> int \<Rightarrow> int" where
  "days_before_month y m =
    [0, 31, 59, 90, 120, 151, 181, 212, 243, 273, 304, 334] ! nat (m - 1)
    + (if 2 < m \<and> is_leap y then 1 else 0)"

fun toordinal :: "date \<Rightarrow> int" where
  "toordinal (Date y m d) = days_before_year y + days_before_month y m + d"

text \<open>
  \<^verbatim>\<open>max(0, (parse_date(b) - parse_date(a)).days + 1)\<close>: the left operand of the
  subtraction is evaluated first.
\<close>

definition date_diff_days :: "(nat \<Rightarrow> nat option) \<Rightarrow> str \<Rightarrow> str \<Rightarrow> error + int" where
  "date_diff_days dv a b =
    and_then (parse_date dv b) (\<lambda>db.
    and_then (parse_date dv a) (\<lambda>da.
      Inr (max 0 (toordinal db - toordinal da + 1))))"

subsection \<open>The cost: an \<^verbatim>\<open>int\<close> times a \<^verbatim>\<open>float\<close>\<close>

text \<open>
  A double is its 64 bits: the sign, eleven bits of exponent, fifty-two bits of
  fraction. A finite double is \<open>\<plusminus> sig * 2 ^ ex\<close> for the integers \<open>f64_sig\<close> and
  \<open>f64_ex\<close>. \<open>f64_round s m e\<close> is the double nearest to \<open>\<plusminus> m * 2 ^ e\<close> (\<open>m\<close> not
  negative), a tie going to the even significand, and an infinity when the result is
  too large: the rounding of IEEE 754 that Python's arithmetic uses.
\<close>

definition f64_sign :: "f64 \<Rightarrow> bool" where
  "f64_sign x = (9223372036854775808 \<le> uint x)"

definition f64_exponent :: "f64 \<Rightarrow> int" where
  "f64_exponent x = uint x div 4503599627370496 mod 2048"

definition f64_fraction :: "f64 \<Rightarrow> int" where
  "f64_fraction x = uint x mod 4503599627370496"

definition f64_is_nan :: "f64 \<Rightarrow> bool" where
  "f64_is_nan x = (f64_exponent x = 2047 \<and> f64_fraction x \<noteq> 0)"

definition f64_is_inf :: "f64 \<Rightarrow> bool" where
  "f64_is_inf x = (f64_exponent x = 2047 \<and> f64_fraction x = 0)"

definition f64_is_zero :: "f64 \<Rightarrow> bool" where
  "f64_is_zero x = (f64_exponent x = 0 \<and> f64_fraction x = 0)"

definition f64_sig :: "f64 \<Rightarrow> int" where
  "f64_sig x =
    (if f64_exponent x = 0 then f64_fraction x else 4503599627370496 + f64_fraction x)"

definition f64_ex :: "f64 \<Rightarrow> int" where
  "f64_ex x = (if f64_exponent x = 0 then - 1074 else f64_exponent x - 1075)"

definition f64_nan :: f64 where
  "f64_nan = 0x7FF8000000000000"

definition f64_signed :: "bool \<Rightarrow> int \<Rightarrow> f64" where
  "f64_signed s bits = word_of_int ((if s then 9223372036854775808 else 0) + bits)"

function bit_length :: "int \<Rightarrow> nat" where
  "bit_length n = (if n \<le> 0 then 0 else Suc (bit_length (n div 2)))"
  by pat_completeness auto
termination
  by (relation "measure nat") auto

definition round_half_even :: "int \<Rightarrow> nat \<Rightarrow> int" where
  "round_half_even m k =
    (let d = m div 2 ^ k; r = m mod 2 ^ k
     in if 2 ^ k < 2 * r \<or> (2 * r = 2 ^ k \<and> odd d) then d + 1 else d)"

definition f64_round :: "bool \<Rightarrow> int \<Rightarrow> int \<Rightarrow> f64" where
  "f64_round s m e =
    (if m = 0 then f64_signed s 0
     else
       let p = int (bit_length m) - 1 + e;
           q = max (p - 52) (- 1074);
           sig = (if q \<le> e then m * 2 ^ nat (e - q) else round_half_even m (nat (q - e)));
           bits = (q + 1074) * 4503599627370496 + sig
       in if 9218868437227405312 \<le> bits then f64_signed s 9218868437227405312
          else f64_signed s bits)"

text \<open>
  \<^verbatim>\<open>float(n)\<close> for an \<^verbatim>\<open>int\<close>, which raises \<^verbatim>\<open>OverflowError\<close> when \<open>n\<close> is too
  large, and the product of two doubles. Which of the not-a-number patterns a product
  returns depends on the processor; the model returns one of them, and no statement
  below depends on which.
\<close>

definition f64_of_int :: "int \<Rightarrow> error + f64" where
  "f64_of_int n =
    (let x = f64_round (n < 0) \<bar>n\<bar> 0 in if f64_is_inf x then Inl OverflowError else Inr x)"

definition f64_mul :: "f64 \<Rightarrow> f64 \<Rightarrow> f64" where
  "f64_mul x y =
    (if f64_is_nan x \<or> f64_is_nan y then f64_nan
     else if f64_is_inf x \<or> f64_is_inf y then
       (if f64_is_zero x \<or> f64_is_zero y then f64_nan
        else f64_signed (f64_sign x \<noteq> f64_sign y) 9218868437227405312)
     else f64_round (f64_sign x \<noteq> f64_sign y) (f64_sig x * f64_sig y) (f64_ex x + f64_ex y))"


text \<open>
  \<^verbatim>\<open>est_cost = dcount * car.price_per_day\<close> in \<^verbatim>\<open>add_contract\<close> (and the same product
  in \<^verbatim>\<open>close_contract\<close>): the \<^verbatim>\<open>int\<close> is converted to a double, then the doubles are
  multiplied.
\<close>

definition est_cost :: "int \<Rightarrow> f64 \<Rightarrow> error + f64" where
  "est_cost dcount price = and_then (f64_of_int dcount) (\<lambda>d. Inr (f64_mul d price))"

section \<open>Vocabulary of the properties\<close>

text \<open>
  A text value fits a field of \<open>w\<close> bytes when it has a UTF-8 encoding and the encoding
  is at most \<open>w\<close> bytes long.
\<close>

definition fits :: "str \<Rightarrow> nat \<Rightarrow> bool" where
  "fits s w = (case utf8_encode s of Inl _ \<Rightarrow> False | Inr e \<Rightarrow> length e \<le> w)"

definition ends_with_space :: "str \<Rightarrow> bool" where
  "ends_with_space s = (s \<noteq> [] \<and> last s = 32)"

text \<open>
  An entity within the bounds of its record format: every text field fits its width and
  the year is an unsigned 32-bit integer. Every \<open>f64\<close> is a double.
\<close>

definition Car_within_bounds :: "Car \<Rightarrow> bool" where
  "Car_within_bounds c =
    (fits (car_id c) 10 \<and> fits (plate c) 10 \<and> fits (brand c) 20 \<and> fits (model c) 30
     \<and> 0 \<le> year c \<and> year c < 4294967296 \<and> fits (status c) 10 \<and> fits (rented c) 3)"

definition Customer_within_bounds :: "Customer \<Rightarrow> bool" where
  "Customer_within_bounds c =
    (fits (cust_id c) 10 \<and> fits (name c) 50 \<and> fits (id_card c) 13 \<and> fits (phone c) 15
     \<and> fits (email c) 50)"

definition Contract_within_bounds :: "Contract \<Rightarrow> bool" where
  "Contract_within_bounds c =
    (fits (contract_id c) 10 \<and> fits (contract_car_id c) 10 \<and> fits (contract_cust_id c) 10
     \<and> fits (start_date c) 10 \<and> fits (end_date c) 10 \<and> fits (contract_status c) 10)"

definition Car_no_trailing_space :: "Car \<Rightarrow> bool" where
  "Car_no_trailing_space c =
    (\<not> ends_with_space (car_id c) \<and> \<not> ends_with_space (plate c) \<and> \<not> ends_with_space (brand c)
     \<and> \<not> ends_with_space (model c) \<and> \<not> ends_with_space (status c)
     \<and> \<not> ends_with_space (rented c))"

definition Customer_no_trailing_space :: "Customer \<Rightarrow> bool" where
  "Customer_no_trailing_space c =
    (\<not> ends_with_space (cust_id c) \<and> \<not> ends_with_space (name c)
     \<and> \<not> ends_with_space (id_card c) \<and> \<not> ends_with_space (phone c)
     \<and> \<not> ends_with_space (email c))"

definition Contract_no_trailing_space :: "Contract \<Rightarrow> bool" where
  "Contract_no_trailing_space c =
    (\<not> ends_with_space (contract_id c) \<and> \<not> ends_with_space (contract_car_id c)
     \<and> \<not> ends_with_space (contract_cust_id c) \<and> \<not> ends_with_space (start_date c)
     \<and> \<not> ends_with_space (end_date c) \<and> \<not> ends_with_space (contract_status c))"

text \<open>A raw record matches an identifier when it decodes to an entity of that identity.\<close>

definition Car_matches :: "str \<Rightarrow> bytes \<Rightarrow> bool" where
  "Car_matches cid b = (case Car_unpack b of Inl _ \<Rightarrow> False | Inr c \<Rightarrow> car_id c = cid)"

definition Customer_matches :: "str \<Rightarrow> bytes \<Rightarrow> bool" where
  "Customer_matches cid b =
    (case Customer_unpack b of Inl _ \<Rightarrow> False | Inr c \<Rightarrow> cust_id c = cid)"


definition extends_ascii :: "(nat \<Rightarrow> nat option) \<Rightarrow> bool" where
  "extends_ascii dv = (\<forall>c. 48 \<le> c \<and> c \<le> 57 \<longrightarrow> dv c = Some (c - 48))"

section \<open>Example values\<close>

text \<open>
  The vehicle of the specification's end-to-end scenario (the double 2500.0 has the bit
  pattern \<open>0x40A3880000000000\<close>) and its record; a customer and a contract.
\<close>

definition latin1 :: "string \<Rightarrow> bytes" where
  "latin1 s = map of_char s"

definition car_C001 :: Car where
  "car_C001 =
    \<lparr>car_id = ascii ''C001'', plate = ascii ''AB1234'', brand = ascii ''Toyota'',
     model = ascii ''Camry'', year = 2023, price_per_day = 0x40A3880000000000,
     status = ascii ''Active'', rented = ascii ''No''\<rparr>"

definition block_C001 :: bytes where
  "block_C001 =
    latin1 ''C001      '' @ latin1 ''AB1234    '' @ latin1 ''Toyota              ''
    @ latin1 ''Camry                         '' @ [0xE7, 0x07, 0, 0]
    @ [0, 0, 0, 0, 0, 0x88, 0xA3, 0x40] @ latin1 ''Active    '' @ latin1 ''No ''"

definition car_C002 :: Car where
  "car_C002 =
    \<lparr>car_id = ascii ''C002'', plate = ascii ''XY9'', brand = ascii ''Honda'',
     model = ascii ''Civic'', year = 2021, price_per_day = 0x409F400000000000,
     status = ascii ''Active'', rented = ascii ''No''\<rparr>"

definition block_C002 :: bytes where
  "block_C002 =
    latin1 ''C002      '' @ latin1 ''XY9       '' @ latin1 ''Honda               ''
    @ latin1 ''Civic                         '' @ [0xE5, 0x07, 0, 0]
    @ [0, 0, 0, 0, 0, 0x40, 0x9F, 0x40] @ latin1 ''Active    '' @ latin1 ''No ''"

definition customer_U001 :: Customer where
  "customer_U001 =
    \<lparr>cust_id = ascii ''U001'', name = ascii ''Somchai'', id_card = ascii ''1234567890123'',
     phone = ascii ''0812345678'', email = ascii ''s@example.com''\<rparr>"

definition block_U001 :: bytes where
  "block_U001 =
    latin1 ''U001      '' @ latin1 ''Somchai'' @ replicate 43 32 @ latin1 ''1234567890123''
    @ latin1 ''0812345678     '' @ latin1 ''s@example.com'' @ replicate 37 32"

definition customer_U002 :: Customer where
  "customer_U002 =
    \<lparr>cust_id = ascii ''U002'', name = ascii ''Malee'', id_card = ascii ''3210987654321'',
     phone = ascii ''029999999'', email = ascii ''m@example.com''\<rparr>"

definition block_U002 :: bytes where
  "block_U002 =
    latin1 ''U002      '' @ latin1 ''Malee'' @ replicate 45 32 @ latin1 ''3210987654321''
    @ latin1 ''029999999      '' @ latin1 ''m@example.com'' @ replicate 37 32"

definition contract_K001 :: Contract where
  "contract_K001 =
    \<lparr>contract_id = ascii ''K001'', contract_car_id = ascii ''C001'',
     contract_cust_id = ascii ''U001'', start_date = ascii ''2025-09-20'',
     end_date = ascii ''2025-09-25'', total_cost = 0x40CD4C0000000000,
     contract_status = ascii ''active''\<rparr>"

definition block_K001 :: bytes where
  "block_K001 =
    latin1 ''K001      '' @ latin1 ''C001      '' @ latin1 ''U001      ''
    @ latin1 ''2025-09-20'' @ latin1 ''2025-09-25'' @ [0, 0, 0, 0, 0, 0x4C, 0xCD, 0x40]
    @ latin1 ''active    ''"

text \<open>
  A vehicle whose brand is one byte too long for its field: nineteen ASCII characters,
  the last a space, then U+00E9, which takes two bytes. Its record ends the brand field
  with the first byte of that character. The second record is what \<^verbatim>\<open>mark_deleted\<close>
  writes in its place.
\<close>

definition car_C007 :: Car where
  "car_C007 =
    \<lparr>car_id = ascii ''C007'', plate = ascii ''VAN7'',
     brand = ascii ''Mercedes-Benz Vans '' @ [233], model = ascii ''Sprinter'', year = 2023,
     price_per_day = 0x40A3880000000000, status = ascii ''Active'', rented = ascii ''No''\<rparr>"

definition block_C007 :: bytes where
  "block_C007 =
    latin1 ''C007      '' @ latin1 ''VAN7      '' @ latin1 ''Mercedes-Benz Vans '' @ [0xC3]
    @ latin1 ''Sprinter                      '' @ [0xE7, 0x07, 0, 0]
    @ [0, 0, 0, 0, 0, 0x88, 0xA3, 0x40] @ latin1 ''Active    '' @ latin1 ''No ''"

definition block_C007_deleted :: bytes where
  "block_C007_deleted =
    latin1 ''C007      '' @ latin1 ''VAN7      '' @ latin1 ''Mercedes-Benz Vans  ''
    @ latin1 ''Sprinter                      '' @ [0xE7, 0x07, 0, 0]
    @ [0, 0, 0, 0, 0, 0x88, 0xA3, 0x40] @ latin1 ''Deleted   '' @ latin1 ''No ''"

section \<open>Properties of the codec\<close>

lemma CAR_RECORD_SIZE_95: "CAR_RECORD_SIZE = 95"
  by (simp add: CAR_RECORD_SIZE_def)

lemma split64: "(cp::nat) = (cp div 4096) * 4096 + (cp div 64 mod 64) * 64 + cp mod 64"
proof -
  have "cp div 4096 = cp div 64 div 64" by (simp add: div_mult2_eq)
  then show ?thesis
    using div_mult_mod_eq[of cp 64] div_mult_mod_eq[of "cp div 64" 64] by linarith
qed

lemma split64_4:
  "(cp::nat) = (cp div 262144) * 262144 + (cp div 4096 mod 64) * 4096
     + (cp div 64 mod 64) * 64 + cp mod 64"
proof -
  have "cp div 262144 = cp div 4096 div 64" by (simp add: div_mult2_eq)
  then show ?thesis
    using split64[of cp] div_mult_mod_eq[of "cp div 4096" 64] by linarith
qed

lemma utf8_step_2:
  "194 \<le> ch \<Longrightarrow> ch < 224 \<Longrightarrow> continuation c2 \<Longrightarrow>
   utf8_step ch (c2 # r) = Decoded (ch * 64 + c2 - 12416) 2"
  by (simp add: utf8_step_def)

lemma utf8_step_3:
  "224 \<le> ch \<Longrightarrow> ch < 240 \<Longrightarrow> continuation c2 \<Longrightarrow> continuation c3 \<Longrightarrow>
   \<not> (ch = 224 \<and> c2 < 160) \<Longrightarrow> \<not> (ch = 237 \<and> 160 \<le> c2) \<Longrightarrow>
   utf8_step ch (c2 # c3 # r) = Decoded (ch * 4096 + c2 * 64 + c3 - 925824) 3"
  by (simp add: utf8_step_def)

lemma utf8_step_4:
  "240 \<le> ch \<Longrightarrow> ch < 245 \<Longrightarrow> continuation c2 \<Longrightarrow> continuation c3 \<Longrightarrow>
   continuation c4 \<Longrightarrow> \<not> (ch = 240 \<and> c2 < 144) \<Longrightarrow> \<not> (ch = 244 \<and> 144 \<le> c2) \<Longrightarrow>
   utf8_step ch (c2 # c3 # c4 # r) =
     Decoded (ch * 262144 + c2 * 4096 + c3 * 64 + c4 - 63447168) 4"
  by (simp add: utf8_step_def)

lemma encode_char_bytes:
  "encode_char cp = Inr b \<Longrightarrow> b \<noteq> [] \<and> (\<forall>x\<in>set b. x < 256)"
  by (auto simp: encode_char_def split: if_splits)

lemma decode_encode_char:
  assumes "encode_char cp = Inr b"
  shows "decode_loop h (b @ r) = (case decode_loop h r of Inl e \<Rightarrow> Inl e | Inr s \<Rightarrow> Inr (cp # s))"
proof -
  consider (a) "cp < 128" | (b) "128 \<le> cp" "cp < 2048"
    | (c) "2048 \<le> cp" "cp < 65536" "\<not> (55296 \<le> cp \<and> cp < 57344)"
    | (d) "65536 \<le> cp" "cp < 1114112"
    using assms by (auto simp: encode_char_def split: if_splits) 
  then show ?thesis
  proof cases
    case a
    then show ?thesis using assms by (auto simp: encode_char_def utf8_step_def)
  next
    case b
    then have "b = [192 + cp div 64, 128 + cp mod 64]"
      using assms by (auto simp: encode_char_def)
    moreover have "192 + cp div 64 \<ge> 194" "192 + cp div 64 < 224" using b by auto
    moreover have "(192 + cp div 64) * 64 + (128 + cp mod 64) - 12416 = cp" by auto
    ultimately show ?thesis
      by (simp add: utf8_step_def continuation_def)
  next
    case c
    define a where "a = cp div 4096"
    define m where "m = cp div 64 mod 64"
    define l where "l = cp mod 64"
    have cp: "cp = a * 4096 + m * 64 + l"
      unfolding a_def m_def l_def by (rule split64)
    have m: "m < 64" and l: "l < 64" by (simp_all add: m_def l_def)
    have a: "a < 16" using c cp by arith
    have bb: "b = [224 + a, 128 + m, 128 + l]"
      using assms c by (auto simp: encode_char_def a_def m_def l_def)
    have g1: "a = 0 \<Longrightarrow> 32 \<le> m" using c cp l m by arith
    have g2: "a = 13 \<Longrightarrow> m < 32" using c cp l m by arith
    have v: "(224 + a) * 4096 + (128 + m) * 64 + (128 + l) - 925824 = cp"
      using cp by simp
    have "utf8_step (224 + a) ((128 + m) # (128 + l) # r) = Decoded cp 3"
      unfolding v[symmetric]
      by (rule utf8_step_3) (use a m l g1 g2 in \<open>auto simp: continuation_def\<close>)
    then show ?thesis
      unfolding bb by simp
  next
    case d
    define a where "a = cp div 262144"
    define k where "k = cp div 4096 mod 64"
    define m where "m = cp div 64 mod 64"
    define l where "l = cp mod 64"
    have cp: "cp = a * 262144 + k * 4096 + m * 64 + l"
      unfolding a_def k_def m_def l_def by (rule split64_4)
    have k: "k < 64" and m: "m < 64" and l: "l < 64" by (simp_all add: k_def m_def l_def)
    have a: "a < 5" using d cp by arith
    have bb: "b = [240 + a, 128 + k, 128 + m, 128 + l]"
      using assms d by (auto simp: encode_char_def a_def k_def m_def l_def)
    have g1: "a = 0 \<Longrightarrow> 16 \<le> k" using d cp l m k by arith
    have g2: "a = 4 \<Longrightarrow> k < 16" using d cp l m k by arith
    have v: "(240 + a) * 262144 + (128 + k) * 4096 + (128 + m) * 64 + (128 + l) - 63447168 = cp"
      using cp by simp
    have "utf8_step (240 + a) ((128 + k) # (128 + m) # (128 + l) # r) = Decoded cp 4"
      unfolding v[symmetric]
      by (rule utf8_step_4) (use a k m l g1 g2 in \<open>auto simp: continuation_def\<close>)
    then show ?thesis
      unfolding bb by simp
  qed
qed

lemma encode_loop_bytes:
  "encode_loop s = Inr b \<Longrightarrow> \<forall>x\<in>set b. x < 256"
proof (induction s arbitrary: b)
  case Nil
  then show ?case by simp
next
  case (Cons cp s)
  then show ?case
    using encode_char_bytes[of cp] by (auto split: sum.splits)
qed

lemma decode_encode_loop:
  "encode_loop s = Inr b \<Longrightarrow> decode_loop h b = Inr s"
proof (induction s arbitrary: b)
  case Nil
  then show ?case by simp
next
  case (Cons cp s)
  then show ?case
    by (auto split: sum.splits simp: decode_encode_char)
qed

lemma unat_of_nat_bytes:
  "\<forall>x\<in>set b. x < 256 \<Longrightarrow> map unat (map of_nat b :: bytes) = b"
  by (induction b) (auto simp: unat_of_nat)

lemma utf8_decode_encode:
  assumes "utf8_encode s = Inr b"
  shows "utf8_decode h b = Inr s"
proof -
  obtain ns where ns: "encode_loop s = Inr ns" and b: "b = map of_nat ns"
    using assms by (auto simp: utf8_encode_def split: sum.splits)
  have "map unat b = ns"
    unfolding b using encode_loop_bytes[OF ns] by (rule unat_of_nat_bytes)
  then show ?thesis
    by (simp add: utf8_decode_def decode_encode_loop[OF ns])
qed

lemma decode_ignore_total: "\<exists>s. decode_loop Ignore bs = Inr s"
proof (induction bs rule: length_induct)
  case (1 bs)
  show ?case
  proof (cases bs)
    case Nil
    then show ?thesis by simp
  next
    case (Cons ch r)
    have *: "\<exists>s. decode_loop Ignore (drop k r) = Inr s" for k
      using 1 Cons by simp
    show ?thesis
    proof (cases "utf8_step ch r")
      case (Decoded cp n)
      obtain s where "decode_loop Ignore (drop (n - 1) r) = Inr s"
        using * by blast
      then show ?thesis using Cons Decoded by simp
    next
      case (Invalid n)
      obtain s where "decode_loop Ignore (drop (n - 1) r) = Inr s"
        using * by blast
      then show ?thesis using Cons Invalid by simp
    next
      case UnexpectedEnd
      then show ?thesis using Cons by simp
    qed
  qed
qed

lemma div_mod_64:
  "l < 64 \<Longrightarrow> (q * 64 + l) div 64 = (q::nat)"
  "l < 64 \<Longrightarrow> (q * 64 + l) mod 64 = l"
  by simp_all

lemma encode_char_2:
  assumes "194 \<le> ch" "ch < 224" "continuation c2"
  shows "encode_char (ch * 64 + c2 - 12416) = Inr [ch, c2]"
proof -
  define a where "a = ch - 192"
  define m where "m = c2 - 128"
  have ch: "ch = 192 + a" and c2: "c2 = 128 + m" and a: "2 \<le> a" "a < 32" and m: "m < 64"
    using assms by (auto simp: a_def m_def continuation_def)
  have cp: "ch * 64 + c2 - 12416 = a * 64 + m"
    by (simp add: ch c2)
  have "(a * 64 + m) div 64 = a" "(a * 64 + m) mod 64 = m" using m by simp_all
  moreover have "128 \<le> a * 64 + m" "a * 64 + m < 2048" using a m by linarith+
  ultimately show ?thesis
    unfolding cp by (simp add: encode_char_def ch c2)
qed

lemma encode_char_3:
  assumes "224 \<le> ch" "ch < 240" "continuation c2" "continuation c3"
    "\<not> (ch = 224 \<and> c2 < 160)" "\<not> (ch = 237 \<and> 160 \<le> c2)"
  shows "encode_char (ch * 4096 + c2 * 64 + c3 - 925824) = Inr [ch, c2, c3]"
proof -
  define a where "a = ch - 224"
  define m where "m = c2 - 128"
  define l where "l = c3 - 128"
  have ch: "ch = 224 + a" and c2: "c2 = 128 + m" and c3: "c3 = 128 + l"
    and a: "a < 16" and m: "m < 64" and l: "l < 64"
    using assms by (auto simp: a_def m_def l_def continuation_def)
  have g: "a = 0 \<Longrightarrow> 32 \<le> m" "a = 13 \<Longrightarrow> m < 32"
    using assms(5,6) by (auto simp: ch c2)
  define cp where "cp = a * 4096 + m * 64 + l"
  have cp: "ch * 4096 + c2 * 64 + c3 - 925824 = cp"
    by (simp add: ch c2 c3 cp_def)
  have e: "cp = (a * 64 + m) * 64 + l" by (simp add: cp_def)
  have d2: "cp div 64 = a * 64 + m" unfolding e using l by (rule div_mod_64)
  have d3: "cp mod 64 = l" unfolding e using l by (rule div_mod_64)
  have d4: "cp div 64 mod 64 = m" unfolding d2 using m by (rule div_mod_64)
  have "cp div 4096 = cp div 64 div 64" by (simp add: div_mult2_eq)
  then have d1: "cp div 4096 = a" unfolding d2 using div_mod_64(1)[OF m] by simp
  have r1: "2048 \<le> cp"
  proof (cases "a = 0")
    case True
    with g have "32 \<le> m" by simp
    then show ?thesis unfolding cp_def by linarith
  next
    case False
    then have "1 \<le> a" by simp
    then show ?thesis unfolding cp_def by linarith
  qed
  have r2: "cp < 65536" using a m l unfolding cp_def by linarith
  have r3: "\<not> (55296 \<le> cp \<and> cp < 57344)"
  proof (cases "a = 13")
    case True
    with g have "m < 32" by simp
    then show ?thesis using l True unfolding cp_def by linarith
  next
    case False
    then have "a \<le> 12 \<or> 14 \<le> a" by linarith
    then show ?thesis using m l unfolding cp_def by linarith
  qed
  note r = r1 r2 r3
  show ?thesis
    unfolding cp using r by (simp add: encode_char_def d1 d3 d4 ch c2 c3)
qed

lemma encode_char_4:
  assumes "240 \<le> ch" "ch < 245" "continuation c2" "continuation c3" "continuation c4"
    "\<not> (ch = 240 \<and> c2 < 144)" "\<not> (ch = 244 \<and> 144 \<le> c2)"
  shows "encode_char (ch * 262144 + c2 * 4096 + c3 * 64 + c4 - 63447168) = Inr [ch, c2, c3, c4]"
proof -
  define a where "a = ch - 240"
  define k where "k = c2 - 128"
  define m where "m = c3 - 128"
  define l where "l = c4 - 128"
  have ch: "ch = 240 + a" and c2: "c2 = 128 + k" and c3: "c3 = 128 + m" and c4: "c4 = 128 + l"
    and a: "a < 5" and k: "k < 64" and m: "m < 64" and l: "l < 64"
    using assms by (auto simp: a_def k_def m_def l_def continuation_def)
  have g: "a = 0 \<Longrightarrow> 16 \<le> k" "a = 4 \<Longrightarrow> k < 16"
    using assms(6,7) by (auto simp: ch c2)
  define cp where "cp = a * 262144 + k * 4096 + m * 64 + l"
  have cp: "ch * 262144 + c2 * 4096 + c3 * 64 + c4 - 63447168 = cp"
    by (simp add: ch c2 c3 c4 cp_def)
  have e: "cp = ((a * 64 + k) * 64 + m) * 64 + l" by (simp add: cp_def)
  have d2: "cp div 64 = (a * 64 + k) * 64 + m" unfolding e using l by (rule div_mod_64)
  have d3: "cp mod 64 = l" unfolding e using l by (rule div_mod_64)
  have d4: "cp div 64 mod 64 = m" unfolding d2 using m by (rule div_mod_64)
  have "cp div 4096 = cp div 64 div 64" by (simp add: div_mult2_eq)
  then have d5: "cp div 4096 = a * 64 + k" unfolding d2 using div_mod_64(1)[OF m] by simp
  have d6: "cp div 4096 mod 64 = k" unfolding d5 using k by (rule div_mod_64)
  have "cp div 262144 = cp div 4096 div 64" by (simp add: div_mult2_eq)
  then have d1: "cp div 262144 = a" unfolding d5 using div_mod_64(1)[OF k] by simp
  have r1: "65536 \<le> cp"
  proof (cases "a = 0")
    case True
    with g have "16 \<le> k" by simp
    then show ?thesis unfolding cp_def by linarith
  next
    case False
    then have "1 \<le> a" by simp
    then show ?thesis unfolding cp_def by linarith
  qed
  have r2: "cp < 1114112"
  proof (cases "a = 4")
    case True
    with g have "k < 16" by simp
    then show ?thesis using m l True unfolding cp_def by linarith
  next
    case False
    then have "a \<le> 3" using a by linarith
    then show ?thesis using k m l unfolding cp_def by linarith
  qed
  note r = r1 r2
  show ?thesis
    unfolding cp using r by (simp add: encode_char_def d1 d3 d4 d6 ch c2 c3 c4)
qed

lemma utf8_step_Decoded:
  assumes "utf8_step ch bs = Decoded cp n"
  shows "encode_char cp = Inr (ch # take (n - 1) bs) \<and> 1 \<le> n \<and> n - 1 \<le> length bs"
proof -
  consider (a) "ch < 128" | (b) "194 \<le> ch" "ch < 224" | (c) "224 \<le> ch" "ch < 240"
    | (d) "240 \<le> ch" "ch < 245" | (e) "128 \<le> ch" "ch < 194" | (f) "245 \<le> ch"
    by linarith
  then show ?thesis
  proof cases
    case a
    then show ?thesis using assms by (auto simp: utf8_step_def encode_char_def)
  next
    case b
    then show ?thesis using assms encode_char_2[of ch]
      by (auto simp: utf8_step_def split: list.splits if_splits)
  next
    case c
    then show ?thesis using assms encode_char_3[of ch]
      by (auto simp: utf8_step_def split: list.splits if_splits)
  next
    case d
    then show ?thesis using assms encode_char_4[of ch]
      by (auto simp: utf8_step_def split: list.splits if_splits)
  next
    case e
    then show ?thesis using assms by (auto simp: utf8_step_def)
  next
    case f
    then show ?thesis using assms by (auto simp: utf8_step_def)
  qed
qed

lemma bytes_to_str_total: "\<exists>s. bytes_to_str b = Inr s"
  by (simp add: bytes_to_str_def utf8_decode_def decode_ignore_total)

lemma Car_unpack_total:
  assumes "length b = CAR_RECORD_SIZE"
  shows "\<exists>c. Car_unpack b = Inr c"
proof -
  obtain f0 f1 f2 f3 f6 f7 where
    "bytes_to_str (field 0 10 b) = Inr f0" "bytes_to_str (field 10 10 b) = Inr f1"
    "bytes_to_str (field 20 20 b) = Inr f2" "bytes_to_str (field 40 30 b) = Inr f3"
    "bytes_to_str (field 82 10 b) = Inr f6" "bytes_to_str (field 92 3 b) = Inr f7"
    using bytes_to_str_total by meson
  then show ?thesis using assms by (simp add: Car_unpack_def and_then_def)
qed

lemma Customer_unpack_total:
  assumes "length b = CUST_RECORD_SIZE"
  shows "\<exists>c. Customer_unpack b = Inr c"
proof -
  obtain f0 f1 f2 f3 f4 where
    "bytes_to_str (field 0 10 b) = Inr f0" "bytes_to_str (field 10 50 b) = Inr f1"
    "bytes_to_str (field 60 13 b) = Inr f2" "bytes_to_str (field 73 15 b) = Inr f3"
    "bytes_to_str (field 88 50 b) = Inr f4"
    using bytes_to_str_total by meson
  then show ?thesis using assms by (simp add: Customer_unpack_def and_then_def)
qed


declare iterate_raw.simps [simp del]

lemma iterate_raw_length:
  "b \<in> set (iterate_raw n content) \<Longrightarrow> length b = n"
proof (induction n content rule: iterate_raw.induct)
  case (1 recsize content)
  then show ?case
    by (subst (asm) (2) iterate_raw.simps) (auto simp: Let_def split: if_splits)
qed











lemma rstrip_append_spaces: "rstrip (b @ replicate k 32) = rstrip b"
  by (simp add: rstrip_def dropWhile_append)

lemma rstrip_id: "b = [] \<or> last b \<noteq> 32 \<Longrightarrow> rstrip b = b"
  by (cases b rule: rev_cases) (auto simp: rstrip_def)

lemma encode_char_last:
  "encode_char cp = Inr b \<Longrightarrow> cp \<noteq> 32 \<Longrightarrow> last b \<noteq> 32"
  by (auto simp: encode_char_def split: if_splits)

lemma encode_loop_last:
  "encode_loop s = Inr b \<Longrightarrow> \<not> ends_with_space s \<Longrightarrow> b = [] \<or> last b \<noteq> 32"
proof (induction s arbitrary: b)
  case Nil
  then show ?case by simp
next
  case (Cons cp s)
  obtain c r where c: "encode_char cp = Inr c" and r: "encode_loop s = Inr r" and b: "b = c @ r"
    using Cons.prems(1) by (auto split: sum.splits)
  show ?case
  proof (cases "s = []")
    case True
    then have "r = []" using r by simp
    moreover have "cp \<noteq> 32" using Cons.prems(2) True by (simp add: ends_with_space_def)
    ultimately show ?thesis using encode_char_last[OF c] b by simp
  next
    case False
    then have "\<not> ends_with_space s" using Cons.prems(2) by (simp add: ends_with_space_def)
    then have "r = [] \<or> last r \<noteq> 32" using Cons.IH[OF r] by simp
    moreover have "r \<noteq> []"
    proof -
      obtain x xs where "s = x # xs" using False by (cases s) auto
      then show ?thesis using r encode_char_bytes[of x] by (auto split: sum.splits)
    qed
    ultimately show ?thesis using b by simp
  qed
qed

lemma utf8_encode_last:
  assumes "utf8_encode s = Inr b" "\<not> ends_with_space s"
  shows "b = [] \<or> last b \<noteq> 32"
proof -
  obtain ns where ns: "encode_loop s = Inr ns" and b: "b = map of_nat ns"
    using assms(1) by (auto simp: utf8_encode_def split: sum.splits)
  show ?thesis
  proof (cases "ns = []")
    case True
    then show ?thesis using b by simp
  next
    case False
    then have l: "last ns \<noteq> 32" using encode_loop_last[OF ns assms(2)] by simp
    have "last ns < 256" using encode_loop_bytes[OF ns] False by simp
    then have "unat (of_nat (last ns) :: byte) = last ns" by (simp add: unat_of_nat)
    then have "(of_nat (last ns) :: byte) \<noteq> 32" using l by auto
    then show ?thesis using False b by (simp add: last_map)
  qed
qed

lemma fixed_bytes_fits:
  assumes "utf8_encode s = Inr e" "length e \<le> w"
  shows "fixed_bytes s (int w) = Inr (e @ replicate (w - length e) 32)"
  using assms by (simp add: fixed_bytes_def slice_to_def Let_def nat_diff_distrib')

lemma bytes_to_str_padded:
  assumes "utf8_encode s = Inr e" "\<not> ends_with_space s"
  shows "bytes_to_str (e @ replicate k 32) = Inr s"
  using utf8_encode_last[OF assms] utf8_decode_encode[OF assms(1)]
  by (simp add: bytes_to_str_def rstrip_append_spaces rstrip_id)

lemma text_field_roundtrip:
  assumes "fits s w" "\<not> ends_with_space s"
  obtains fb where "fixed_bytes s (int w) = Inr fb" "length fb = w" "bytes_to_str fb = Inr s"
proof -
  obtain e where e: "utf8_encode s = Inr e" and l: "length e \<le> w"
    using assms(1) by (auto simp: fits_def split: sum.splits)
  show thesis
  proof (rule that)
    show "fixed_bytes s (int w) = Inr (e @ replicate (w - length e) 32)"
      using e l by (rule fixed_bytes_fits)
    show "length (e @ replicate (w - length e) 32) = w" using l by simp
    show "bytes_to_str (e @ replicate (w - length e) 32) = Inr s"
      using e assms(2) by (rule bytes_to_str_padded)
  qed
qed

lemma pack_s_exact: "length b = n \<Longrightarrow> pack_s n b = b"
  by (simp add: pack_s_def)

lemma length_le_bytes: "length (le_bytes k v) = k"
  by (induction k arbitrary: v) auto

lemma le_value_le_bytes: "le_value (le_bytes k v) = v mod 256 ^ k"
proof (induction k arbitrary: v)
  case 0
  then show ?case by simp
next
  case (Suc k)
  have "unat (of_nat (v mod 256) :: byte) = v mod 256"
    by (simp add: unat_of_nat)
  then show ?case
    using Suc[of "v div 256"] by (simp add: mod_mult2_eq)
qed

lemma unpack_pack_I:
  "pack_I v = Inr b \<Longrightarrow> length b = 4 \<and> unpack_I b = v"
  by (auto simp: pack_I_def unpack_I_def length_le_bytes le_value_le_bytes split: if_splits)

lemma unpack_pack_d: "unpack_d (pack_d x) = x"
proof -
  have "unat x < 2 ^ 64" using unsigned_less[of x] by simp
  then have "unat x mod 256 ^ 8 = unat x" by simp
  then show ?thesis by (simp add: unpack_d_def pack_d_def le_value_le_bytes)
qed

lemma length_pack_d: "length (pack_d x) = 8"
  by (simp add: pack_d_def length_le_bytes)

lemma field_0: "length f = n \<Longrightarrow> field 0 n (f @ r) = f"
  by (simp add: field_def)

lemma field_skip: "length f = k \<Longrightarrow> k \<le> i \<Longrightarrow> field i n (f @ r) = field (i - k) n r"
  by (simp add: field_def)

lemma field_last: "length f = n \<Longrightarrow> field 0 n f = f"
  by (simp add: field_def)

lemma Car_unpack_concat:
  assumes "length f0 = 10" "length f1 = 10" "length f2 = 20" "length f3 = 30"
    "length f4 = 4" "length f5 = 8" "length f6 = 10" "length f7 = 3"
  shows "Car_unpack (f0 @ f1 @ f2 @ f3 @ f4 @ f5 @ f6 @ f7) =
    and_then (bytes_to_str f0) (\<lambda>s0.
    and_then (bytes_to_str f1) (\<lambda>s1.
    and_then (bytes_to_str f2) (\<lambda>s2.
    and_then (bytes_to_str f3) (\<lambda>s3.
    and_then (bytes_to_str f6) (\<lambda>s6.
    and_then (bytes_to_str f7) (\<lambda>s7.
      Inr \<lparr>car_id = s0, plate = s1, brand = s2, model = s3, year = unpack_I f4,
           price_per_day = unpack_d f5, status = s6, rented = s7\<rparr>))))))"
  using assms by (simp add: Car_unpack_def CAR_RECORD_SIZE_def field_def)

lemma Car_roundtrip:
  assumes "Car_within_bounds c" "Car_no_trailing_space c"
  shows "\<exists>b. Car_pack c = Inr b \<and> length b = CAR_RECORD_SIZE \<and> Car_unpack b = Inr c"
proof -
  have w: "fits (car_id c) 10" "fits (plate c) 10" "fits (brand c) 20" "fits (model c) 30"
    "fits (status c) 10" "fits (rented c) 3" "0 \<le> year c" "year c < 4294967296"
    using assms(1) by (simp_all add: Car_within_bounds_def)
  have n: "\<not> ends_with_space (car_id c)" "\<not> ends_with_space (plate c)"
    "\<not> ends_with_space (brand c)" "\<not> ends_with_space (model c)"
    "\<not> ends_with_space (status c)" "\<not> ends_with_space (rented c)"
    using assms(2) by (simp_all add: Car_no_trailing_space_def)
  obtain f0 where f0: "fixed_bytes (car_id c) 10 = Inr f0" "length f0 = 10"
    "bytes_to_str f0 = Inr (car_id c)"
    using text_field_roundtrip[OF w(1) n(1)] by auto
  obtain f1 where f1: "fixed_bytes (plate c) 10 = Inr f1" "length f1 = 10"
    "bytes_to_str f1 = Inr (plate c)"
    using text_field_roundtrip[OF w(2) n(2)] by auto
  obtain f2 where f2: "fixed_bytes (brand c) 20 = Inr f2" "length f2 = 20"
    "bytes_to_str f2 = Inr (brand c)"
    using text_field_roundtrip[OF w(3) n(3)] by auto
  obtain f3 where f3: "fixed_bytes (model c) 30 = Inr f3" "length f3 = 30"
    "bytes_to_str f3 = Inr (model c)"
    using text_field_roundtrip[OF w(4) n(4)] by auto
  obtain f6 where f6: "fixed_bytes (status c) 10 = Inr f6" "length f6 = 10"
    "bytes_to_str f6 = Inr (status c)"
    using text_field_roundtrip[OF w(5) n(5)] by auto
  obtain f7 where f7: "fixed_bytes (rented c) 3 = Inr f7" "length f7 = 3"
    "bytes_to_str f7 = Inr (rented c)"
    using text_field_roundtrip[OF w(6) n(6)] by auto
  obtain f4 where f4: "pack_I (year c) = Inr f4"
    using w(7,8) by (simp add: pack_I_def)
  note i = unpack_pack_I[OF f4]
  define b where "b = f0 @ f1 @ f2 @ f3 @ f4 @ pack_d (price_per_day c) @ f6 @ f7"
  have p: "Car_pack c = Inr b"
    by (simp add: Car_pack_def and_then_def f0 f1 f2 f3 f4 f6 f7 pack_s_exact b_def)
  have "Car_unpack b = Inr c"
    unfolding b_def
    by (subst Car_unpack_concat)
      (simp_all add: f0 f1 f2 f3 f6 f7 i length_pack_d and_then_def unpack_pack_d)
  moreover have "length b = CAR_RECORD_SIZE"
    by (simp add: b_def f0 f1 f2 f3 f6 f7 i length_pack_d CAR_RECORD_SIZE_def)
  ultimately show ?thesis using p by blast
qed

lemma Customer_unpack_concat:
  assumes "length f0 = 10" "length f1 = 50" "length f2 = 13" "length f3 = 15" "length f4 = 50"
  shows "Customer_unpack (f0 @ f1 @ f2 @ f3 @ f4) =
    and_then (bytes_to_str f0) (\<lambda>s0.
    and_then (bytes_to_str f1) (\<lambda>s1.
    and_then (bytes_to_str f2) (\<lambda>s2.
    and_then (bytes_to_str f3) (\<lambda>s3.
    and_then (bytes_to_str f4) (\<lambda>s4.
      Inr \<lparr>cust_id = s0, name = s1, id_card = s2, phone = s3, email = s4\<rparr>)))))"
  using assms by (simp add: Customer_unpack_def CUST_RECORD_SIZE_def field_def)

lemma Customer_roundtrip:
  assumes "Customer_within_bounds c" "Customer_no_trailing_space c"
  shows "\<exists>b. Customer_pack c = Inr b \<and> length b = CUST_RECORD_SIZE
    \<and> Customer_unpack b = Inr c"
proof -
  have w: "fits (cust_id c) 10" "fits (name c) 50" "fits (id_card c) 13" "fits (phone c) 15"
    "fits (email c) 50"
    using assms(1) by (simp_all add: Customer_within_bounds_def)
  have n: "\<not> ends_with_space (cust_id c)" "\<not> ends_with_space (name c)"
    "\<not> ends_with_space (id_card c)" "\<not> ends_with_space (phone c)"
    "\<not> ends_with_space (email c)"
    using assms(2) by (simp_all add: Customer_no_trailing_space_def)
  obtain f0 where f0: "fixed_bytes (cust_id c) 10 = Inr f0" "length f0 = 10"
    "bytes_to_str f0 = Inr (cust_id c)"
    using text_field_roundtrip[OF w(1) n(1)] by auto
  obtain f1 where f1: "fixed_bytes (name c) 50 = Inr f1" "length f1 = 50"
    "bytes_to_str f1 = Inr (name c)"
    using text_field_roundtrip[OF w(2) n(2)] by auto
  obtain f2 where f2: "fixed_bytes (id_card c) 13 = Inr f2" "length f2 = 13"
    "bytes_to_str f2 = Inr (id_card c)"
    using text_field_roundtrip[OF w(3) n(3)] by auto
  obtain f3 where f3: "fixed_bytes (phone c) 15 = Inr f3" "length f3 = 15"
    "bytes_to_str f3 = Inr (phone c)"
    using text_field_roundtrip[OF w(4) n(4)] by auto
  obtain f4 where f4: "fixed_bytes (email c) 50 = Inr f4" "length f4 = 50"
    "bytes_to_str f4 = Inr (email c)"
    using text_field_roundtrip[OF w(5) n(5)] by auto
  define b where "b = f0 @ f1 @ f2 @ f3 @ f4"
  have p: "Customer_pack c = Inr b"
    by (simp add: Customer_pack_def and_then_def f0 f1 f2 f3 f4 pack_s_exact b_def)
  have "Customer_unpack b = Inr c"
    unfolding b_def
    by (subst Customer_unpack_concat) (simp_all add: f0 f1 f2 f3 f4 and_then_def)
  moreover have "length b = CUST_RECORD_SIZE"
    by (simp add: b_def f0 f1 f2 f3 f4 CUST_RECORD_SIZE_def)
  ultimately show ?thesis using p by blast
qed

lemma Contract_unpack_concat:
  assumes "length f0 = 10" "length f1 = 10" "length f2 = 10" "length f3 = 10"
    "length f4 = 10" "length f5 = 8" "length f6 = 10"
  shows "Contract_unpack (f0 @ f1 @ f2 @ f3 @ f4 @ f5 @ f6) =
    and_then (bytes_to_str f0) (\<lambda>s0.
    and_then (bytes_to_str f1) (\<lambda>s1.
    and_then (bytes_to_str f2) (\<lambda>s2.
    and_then (bytes_to_str f3) (\<lambda>s3.
    and_then (bytes_to_str f4) (\<lambda>s4.
    and_then (bytes_to_str f6) (\<lambda>s6.
      Inr \<lparr>contract_id = s0, contract_car_id = s1, contract_cust_id = s2,
           start_date = s3, end_date = s4, total_cost = unpack_d f5,
           contract_status = s6\<rparr>))))))"
  using assms by (simp add: Contract_unpack_def CONTRACT_RECORD_SIZE_def field_def)

lemma Contract_roundtrip:
  assumes "Contract_within_bounds c" "Contract_no_trailing_space c"
  shows "\<exists>b. Contract_pack c = Inr b \<and> length b = CONTRACT_RECORD_SIZE
    \<and> Contract_unpack b = Inr c"
proof -
  have w: "fits (contract_id c) 10" "fits (contract_car_id c) 10"
    "fits (contract_cust_id c) 10" "fits (start_date c) 10" "fits (end_date c) 10"
    "fits (contract_status c) 10"
    using assms(1) by (simp_all add: Contract_within_bounds_def)
  have n: "\<not> ends_with_space (contract_id c)" "\<not> ends_with_space (contract_car_id c)"
    "\<not> ends_with_space (contract_cust_id c)" "\<not> ends_with_space (start_date c)"
    "\<not> ends_with_space (end_date c)" "\<not> ends_with_space (contract_status c)"
    using assms(2) by (simp_all add: Contract_no_trailing_space_def)
  obtain f0 where f0: "fixed_bytes (contract_id c) 10 = Inr f0" "length f0 = 10"
    "bytes_to_str f0 = Inr (contract_id c)"
    using text_field_roundtrip[OF w(1) n(1)] by auto
  obtain f1 where f1: "fixed_bytes (contract_car_id c) 10 = Inr f1" "length f1 = 10"
    "bytes_to_str f1 = Inr (contract_car_id c)"
    using text_field_roundtrip[OF w(2) n(2)] by auto
  obtain f2 where f2: "fixed_bytes (contract_cust_id c) 10 = Inr f2" "length f2 = 10"
    "bytes_to_str f2 = Inr (contract_cust_id c)"
    using text_field_roundtrip[OF w(3) n(3)] by auto
  obtain f3 where f3: "fixed_bytes (start_date c) 10 = Inr f3" "length f3 = 10"
    "bytes_to_str f3 = Inr (start_date c)"
    using text_field_roundtrip[OF w(4) n(4)] by auto
  obtain f4 where f4: "fixed_bytes (end_date c) 10 = Inr f4" "length f4 = 10"
    "bytes_to_str f4 = Inr (end_date c)"
    using text_field_roundtrip[OF w(5) n(5)] by auto
  obtain f6 where f6: "fixed_bytes (contract_status c) 10 = Inr f6" "length f6 = 10"
    "bytes_to_str f6 = Inr (contract_status c)"
    using text_field_roundtrip[OF w(6) n(6)] by auto
  define b where "b = f0 @ f1 @ f2 @ f3 @ f4 @ pack_d (total_cost c) @ f6"
  have p: "Contract_pack c = Inr b"
    by (simp add: Contract_pack_def and_then_def f0 f1 f2 f3 f4 f6 pack_s_exact b_def)
  have "Contract_unpack b = Inr c"
    unfolding b_def
    by (subst Contract_unpack_concat)
      (simp_all add: f0 f1 f2 f3 f4 f6 length_pack_d and_then_def unpack_pack_d)
  moreover have "length b = CONTRACT_RECORD_SIZE"
    by (simp add: b_def f0 f1 f2 f3 f4 f6 length_pack_d CONTRACT_RECORD_SIZE_def)
  ultimately show ?thesis using p by blast
qed

lemma le_bytes_numeral:
  "le_bytes (numeral k) v = of_nat (v mod 256) # le_bytes (pred_numeral k) (v div 256)"
proof -
  have "(numeral k :: nat) = Suc (pred_numeral k)" by (rule numeral_eq_Suc)
  then show ?thesis by (simp only: le_bytes.simps)
qed

lemma replicate_numeral_Cons:
  "replicate (numeral k) x = x # replicate (pred_numeral k) x"
proof -
  have "(numeral k :: nat) = Suc (pred_numeral k)" by (rule numeral_eq_Suc)
  then show ?thesis by (simp only: replicate.simps)
qed

lemmas eval_codec = replicate_numeral_Cons ascii_def latin1_def utf8_encode_def encode_char_def fixed_bytes_def
  slice_to_def pack_s_def bytes_to_str_def rstrip_def utf8_decode_def utf8_step_def
  continuation_def and_then_def le_bytes_numeral pack_I_def pack_d_def unpack_I_def
  unpack_d_def field_def

lemma Car_pack_C001: "Car_pack car_C001 = Inr block_C001"
  by (simp add: Car_pack_def car_C001_def block_C001_def eval_codec)

lemma length_block_C001: "length block_C001 = 95"
  by (simp add: block_C001_def latin1_def)

lemma Car_unpack_C001: "Car_unpack block_C001 = Inr car_C001"
  by (simp add: Car_unpack_def car_C001_def block_C001_def eval_codec CAR_RECORD_SIZE_def)

lemma iterate_raw_blocks:
  assumes "0 < n" "\<forall>b\<in>set bs. length b = n" "length t < n"
  shows "iterate_raw n (concat bs @ t) = bs"
  using assms(2)
proof (induction bs)
  case Nil
  then show ?case using assms(3) by (simp add: iterate_raw.simps)
next
  case (Cons b bs)
  then have "length b = n" and "iterate_raw n (concat bs @ t) = bs" by simp_all
  then show ?case using assms(1)
    by (subst iterate_raw.simps) (auto simp: Let_def)
qed

lemma iterate_raw_single: "0 < n \<Longrightarrow> length b = n \<Longrightarrow> iterate_raw n b = [b]"
  using iterate_raw_blocks[of n "[b]" "[]"] by simp

lemma iterate_raw_pair:
  "0 < n \<Longrightarrow> length b = n \<Longrightarrow> length c = n \<Longrightarrow> iterate_raw n (b @ c) = [b, c]"
  using iterate_raw_blocks[of n "[b, c]" "[]"] by simp

lemma Car_pack_C002: "Car_pack car_C002 = Inr block_C002"
  by (simp add: Car_pack_def car_C002_def block_C002_def eval_codec)

lemma length_block_C002: "length block_C002 = 95"
  by (simp add: block_C002_def latin1_def)

lemma Car_unpack_C002: "Car_unpack block_C002 = Inr car_C002"
  by (simp add: Car_unpack_def car_C002_def block_C002_def eval_codec CAR_RECORD_SIZE_def)

lemma Customer_pack_U001: "Customer_pack customer_U001 = Inr block_U001"
  by (simp add: Customer_pack_def customer_U001_def block_U001_def eval_codec)

lemma length_block_U001: "length block_U001 = 138"
  by (simp add: block_U001_def latin1_def)

lemma Customer_unpack_U001: "Customer_unpack block_U001 = Inr customer_U001"
  by (simp add: Customer_unpack_def customer_U001_def block_U001_def eval_codec
      CUST_RECORD_SIZE_def)

lemma Customer_pack_U002: "Customer_pack customer_U002 = Inr block_U002"
  by (simp add: Customer_pack_def customer_U002_def block_U002_def eval_codec)

lemma length_block_U002: "length block_U002 = 138"
  by (simp add: block_U002_def latin1_def)

lemma Customer_unpack_U002: "Customer_unpack block_U002 = Inr customer_U002"
  by (simp add: Customer_unpack_def customer_U002_def block_U002_def eval_codec
      CUST_RECORD_SIZE_def)

lemma Contract_pack_K001: "Contract_pack contract_K001 = Inr block_K001"
  by (simp add: Contract_pack_def contract_K001_def block_K001_def eval_codec)



section \<open>The claims\<close>




text \<open>
  C1. Decoding the encoding is the identity for every entity within the bounds of its
  format, provided no text field ends with a space: the padding of a field is made of
  spaces and decoding strips every trailing space, so a value that ends with one comes
  back shorter. The numeric fields are compared as stored (a double by its bit pattern).
\<close>

theorem pack_unpack_roundtrip:
  "(Car_within_bounds c \<and> Car_no_trailing_space c
      \<longrightarrow> and_then (Car_pack c) Car_unpack = Inr c)
   \<and> (Customer_within_bounds u \<and> Customer_no_trailing_space u
      \<longrightarrow> and_then (Customer_pack u) Customer_unpack = Inr u)
   \<and> (Contract_within_bounds k \<and> Contract_no_trailing_space k
      \<longrightarrow> and_then (Contract_pack k) Contract_unpack = Inr k)"
proof (intro conjI impI)
  assume "Car_within_bounds c \<and> Car_no_trailing_space c"
  then obtain b where "Car_pack c = Inr b" "Car_unpack b = Inr c"
    using Car_roundtrip[of c] by blast
  then show "and_then (Car_pack c) Car_unpack = Inr c" by (simp add: and_then_def)
next
  assume "Customer_within_bounds u \<and> Customer_no_trailing_space u"
  then obtain b where "Customer_pack u = Inr b" "Customer_unpack b = Inr u"
    using Customer_roundtrip[of u] by blast
  then show "and_then (Customer_pack u) Customer_unpack = Inr u" by (simp add: and_then_def)
next
  assume "Contract_within_bounds k \<and> Contract_no_trailing_space k"
  then obtain b where "Contract_pack k = Inr b" "Contract_unpack b = Inr k"
    using Contract_roundtrip[of k] by blast
  then show "and_then (Contract_pack k) Contract_unpack = Inr k" by (simp add: and_then_def)
qed

lemmas eval_bounds = Car_within_bounds_def Customer_within_bounds_def
  Contract_within_bounds_def Car_no_trailing_space_def Customer_no_trailing_space_def
  Contract_no_trailing_space_def fits_def ends_with_space_def ascii_def utf8_encode_def
  encode_char_def

theorem pack_unpack_roundtrip_witness:
  "and_then (Car_pack car_C001) Car_unpack = Inr car_C001
   \<and> and_then (Customer_pack (customer_U001\<lparr>name := [3626, 3617, 3594, 3634, 3618]\<rparr>))
        Customer_unpack = Inr (customer_U001\<lparr>name := [3626, 3617, 3594, 3634, 3618]\<rparr>)
   \<and> and_then (Contract_pack contract_K001) Contract_unpack = Inr contract_K001"
proof (intro conjI)
  show "and_then (Car_pack car_C001) Car_unpack = Inr car_C001"
    by (rule pack_unpack_roundtrip[THEN conjunct1, THEN mp])
      (simp add: eval_bounds car_C001_def)
next
  show "and_then (Customer_pack (customer_U001\<lparr>name := [3626, 3617, 3594, 3634, 3618]\<rparr>))
        Customer_unpack = Inr (customer_U001\<lparr>name := [3626, 3617, 3594, 3634, 3618]\<rparr>)"
    by (rule pack_unpack_roundtrip[THEN conjunct2, THEN conjunct1, THEN mp])
      (simp add: eval_bounds customer_U001_def)
next
  show "and_then (Contract_pack contract_K001) Contract_unpack = Inr contract_K001"
    by (rule pack_unpack_roundtrip[THEN conjunct2, THEN conjunct2, THEN mp])
      (simp add: eval_bounds contract_K001_def)
qed

theorem pack_unpack_trailing_space_counterexample:
  "Car_within_bounds (car_C001\<lparr>car_id := ascii ''C001 ''\<rparr>)
   \<and> and_then (Car_pack (car_C001\<lparr>car_id := ascii ''C001 ''\<rparr>)) Car_unpack = Inr car_C001
   \<and> car_C001 \<noteq> car_C001\<lparr>car_id := ascii ''C001 ''\<rparr>"
proof (intro conjI)
  show "Car_within_bounds (car_C001\<lparr>car_id := ascii ''C001 ''\<rparr>)"
    by (simp add: eval_bounds car_C001_def)
  have "Car_pack (car_C001\<lparr>car_id := ascii ''C001 ''\<rparr>) = Inr block_C001"
    by (simp add: Car_pack_def car_C001_def block_C001_def eval_codec)
  then show "and_then (Car_pack (car_C001\<lparr>car_id := ascii ''C001 ''\<rparr>)) Car_unpack
      = Inr car_C001"
    by (simp add: and_then_def Car_unpack_C001)
  show "car_C001 \<noteq> car_C001\<lparr>car_id := ascii ''C001 ''\<rparr>"
    by (simp add: car_C001_def ascii_def)
qed

text \<open>
  C8. When the UTF-8 encoding of a string is longer than a field width \<open>W\<close> (a width is
  not negative), \<^verbatim>\<open>fixed_bytes\<close> raises nothing and returns exactly \<open>W\<close> bytes, the
  first \<open>W\<close> bytes of the encoding, wherever that cuts a character. \<^verbatim>\<open>bytes_to_str\<close>
  raises on no block at all: its decoder runs with the handler \<open>Ignore\<close>.
\<close>

theorem fixed_bytes_truncates:
  "(utf8_encode s = Inr e \<and> 0 \<le> W \<and> W < int (length e)
      \<longrightarrow> fixed_bytes s W = Inr (take (nat W) e) \<and> int (length (take (nat W) e)) = W)
   \<and> (\<exists>t. bytes_to_str block = Inr t)"
proof (intro conjI impI)
  assume a: "utf8_encode s = Inr e \<and> 0 \<le> W \<and> W < int (length e)"
  then have "nat W \<le> length e" by linarith
  then have "length (take (nat W) e) = nat W" by simp
  then have l: "int (length (take (nat W) e)) = W" using a by simp
  then show "fixed_bytes s W = Inr (take (nat W) e)"
    using a by (simp add: fixed_bytes_def slice_to_def Let_def)
  show "int (length (take (nat W) e)) = W" by (rule l)
next
  show "\<exists>t. bytes_to_str block = Inr t" by (rule bytes_to_str_total)
qed

theorem fixed_bytes_truncates_witness:
  "fixed_bytes [3626, 3617, 3594, 3634] 10
     = Inr [0xE0, 0xB8, 0xAA, 0xE0, 0xB8, 0xA1, 0xE0, 0xB8, 0x8A, 0xE0]
   \<and> bytes_to_str [0xE0, 0xB8, 0xAA, 0xE0, 0xB8, 0xA1, 0xE0, 0xB8, 0x8A, 0xE0]
     = Inr [3626, 3617, 3594]"
proof -
  have e: "utf8_encode [3626, 3617, 3594, 3634]
      = Inr [0xE0, 0xB8, 0xAA, 0xE0, 0xB8, 0xA1, 0xE0, 0xB8, 0x8A, 0xE0, 0xB8, 0xB2]"
    by (simp add: utf8_encode_def encode_char_def)
  have "fixed_bytes [3626, 3617, 3594, 3634] 10
      = Inr (take (nat 10)
          [0xE0, 0xB8, 0xAA, 0xE0, 0xB8, 0xA1, 0xE0, 0xB8, 0x8A, 0xE0, 0xB8, 0xB2])"
    by (rule fixed_bytes_truncates[where block = "[]", THEN conjunct1, THEN mp, THEN conjunct1])
      (simp add: e)
  moreover have "bytes_to_str [0xE0, 0xB8, 0xAA, 0xE0, 0xB8, 0xA1, 0xE0, 0xB8, 0x8A, 0xE0]
     = Inr [3626, 3617, 3594]"
    by (simp add: eval_codec)
  ultimately show ?thesis by simp
qed

lemma write_records_None: "write_records acc rs None = (Inr (), acc @ concat rs)"
  by (induction rs arbitrary: acc) auto

lemma write_records_Some:
  "write_records acc rs (Some k) =
    (if k < length rs then (Inl OSError, acc @ concat (take k rs))
     else (Inr (), acc @ concat rs))"
proof (induction rs arbitrary: acc k)
  case Nil
  then show ?case by simp
next
  case (Cons r rs)
  then show ?case by (cases k) auto
qed

lemma tmp_name_differs: "filename @ ''.tmp'' \<noteq> filename"
  by simp

lemma overwrite_all_raw_NoFault:
  "overwrite_all_raw files filename records NoFault =
    (Inr (), (files(filename \<mapsto> concat records))(filename @ ''.tmp'' := None))"
  by (simp add: overwrite_all_raw_def write_records_None)

lemma overwrite_all_raw_success:
  assumes "fst (overwrite_all_raw files filename records fault) = Inr ()"
  shows "snd (overwrite_all_raw files filename records fault) filename = Some (concat records)"
  using assms
  by (cases fault)
    (auto simp: overwrite_all_raw_def write_records_None write_records_Some split: if_splits)

lemma overwrite_all_raw_failure:
  assumes "fst (overwrite_all_raw files filename records fault) = Inl e"
  shows "snd (overwrite_all_raw files filename records fault) filename = files filename"
  using assms
  by (cases fault)
    (auto simp: overwrite_all_raw_def write_records_None write_records_Some split: if_splits)

text \<open>
  C4. \<^verbatim>\<open>overwrite_all_raw\<close> without a failure succeeds, and whenever it succeeds the
  file holds exactly the given blocks in their order. When it fails, at the opening of
  the temporary file, at any write, at the close or at the rename itself, the file is
  what it was: only the temporary file has been written.
\<close>

theorem overwrite_all_raw_atomic:
  "fst (overwrite_all_raw files filename records NoFault) = Inr ()
   \<and> (fst (overwrite_all_raw files filename records fault) = Inr ()
      \<longrightarrow> snd (overwrite_all_raw files filename records fault) filename
           = Some (concat records))
   \<and> (fst (overwrite_all_raw files filename records fault) = Inl e
      \<longrightarrow> snd (overwrite_all_raw files filename records fault) filename = files filename)"
  using overwrite_all_raw_success overwrite_all_raw_failure
  by (simp add: overwrite_all_raw_NoFault)

theorem overwrite_all_raw_atomic_witness:
  "overwrite_all_raw [''cars.dat'' \<mapsto> block_C001] ''cars.dat'' [block_C002, block_C001]
      (FailWrite 1)
     = (Inl OSError, [''cars.dat'' \<mapsto> block_C001, ''cars.dat.tmp'' \<mapsto> block_C002])
   \<and> snd (overwrite_all_raw [''cars.dat'' \<mapsto> block_C001] ''cars.dat''
        [block_C002, block_C001] (FailWrite 1)) ''cars.dat'' = Some block_C001
   \<and> snd (overwrite_all_raw [''cars.dat'' \<mapsto> block_C001] ''cars.dat''
        [block_C002, block_C001] NoFault) ''cars.dat'' = Some (block_C002 @ block_C001)"
proof -
  have f: "overwrite_all_raw [''cars.dat'' \<mapsto> block_C001] ''cars.dat''
      [block_C002, block_C001] (FailWrite 1)
     = (Inl OSError, [''cars.dat'' \<mapsto> block_C001, ''cars.dat.tmp'' \<mapsto> block_C002])"
    by (simp add: overwrite_all_raw_def)
  note t = overwrite_all_raw_atomic[where files = "[''cars.dat'' \<mapsto> block_C001]"
      and filename = "''cars.dat''" and records = "[block_C002, block_C001]"]
  have "snd (overwrite_all_raw [''cars.dat'' \<mapsto> block_C001] ''cars.dat''
        [block_C002, block_C001] (FailWrite 1)) ''cars.dat'' = Some block_C001"
    using t[where fault = "FailWrite 1" and e = OSError] f by simp
  moreover have "snd (overwrite_all_raw [''cars.dat'' \<mapsto> block_C001] ''cars.dat''
        [block_C002, block_C001] NoFault) ''cars.dat'' = Some (block_C002 @ block_C001)"
    using t[where fault = NoFault and e = OSError] by simp
  ultimately show ?thesis using f by simp
qed

lemma Car_matches_unpack:
  "length b = CAR_RECORD_SIZE \<Longrightarrow>
   \<exists>c. Car_unpack b = Inr c \<and> (Car_matches cid b \<longleftrightarrow> car_id c = cid)"
  using Car_unpack_total[of b] by (auto simp: Car_matches_def)

lemma Customer_matches_unpack:
  "length b = CUST_RECORD_SIZE \<Longrightarrow>
   \<exists>c. Customer_unpack b = Inr c \<and> (Customer_matches cid b \<longleftrightarrow> cust_id c = cid)"
  using Customer_unpack_total[of b] by (auto simp: Customer_matches_def)

lemma Car_update_loop_no_match:
  assumes "\<forall>b\<in>set raw. length b = CAR_RECORD_SIZE \<and> \<not> Car_matches cid b"
  shows "Car_update_loop cid new_car raw changed out = Inr (changed, out @ raw)"
  using assms
proof (induction raw arbitrary: changed out)
  case Nil
  then show ?case by simp
next
  case (Cons b raw)
  obtain c where "Car_unpack b = Inr c" "car_id c \<noteq> cid"
    using Cons.prems Car_matches_unpack[of b cid] by auto
  then show ?case using Cons by (simp add: and_then_def)
qed

lemma Car_mark_deleted_loop_no_match:
  assumes "\<forall>b\<in>set raw. length b = CAR_RECORD_SIZE \<and> \<not> Car_matches cid b"
  shows "Car_mark_deleted_loop cid raw changed out = Inr (changed, out @ raw)"
  using assms
proof (induction raw arbitrary: changed out)
  case Nil
  then show ?case by simp
next
  case (Cons b raw)
  obtain c where "Car_unpack b = Inr c" "car_id c \<noteq> cid"
    using Cons.prems Car_matches_unpack[of b cid] by auto
  then show ?case using Cons by (simp add: and_then_def)
qed

lemma iterate_raw_all_length:
  "\<forall>b\<in>set (iterate_raw n content). length b = n"
  using iterate_raw_length by blast

text \<open>
  C7. When no record of the file matches the identifier, \<^verbatim>\<open>update\<close> and
  \<^verbatim>\<open>mark_deleted\<close> return \<open>False\<close> and the file system is as it was;
  \<^verbatim>\<open>overwrite_all_raw\<close> is not reached, so no failure of it matters, and
  \<^verbatim>\<open>new_car.pack()\<close> is not evaluated.
\<close>

theorem not_found_leaves_file:
  "files filename = Some content
   \<and> (\<forall>b\<in>set (iterate_raw CAR_RECORD_SIZE content). \<not> Car_matches cid b)
   \<longrightarrow> CarRepository_update files filename cid new_car fault = (Inr False, files)
     \<and> CarRepository_mark_deleted files filename cid fault = (Inr False, files)"
proof (intro impI)
  assume a: "files filename = Some content
   \<and> (\<forall>b\<in>set (iterate_raw CAR_RECORD_SIZE content). \<not> Car_matches cid b)"
  then have n: "\<forall>b\<in>set (iterate_raw CAR_RECORD_SIZE content).
      length b = CAR_RECORD_SIZE \<and> \<not> Car_matches cid b"
    using iterate_raw_all_length by blast
  show "CarRepository_update files filename cid new_car fault = (Inr False, files)
     \<and> CarRepository_mark_deleted files filename cid fault = (Inr False, files)"
    using a
    by (simp add: CarRepository_update_def CarRepository_mark_deleted_def read_all_raw_def
        Car_update_loop_no_match[OF n] Car_mark_deleted_loop_no_match[OF n])
qed

lemma Car_matches_C001: "Car_matches cid block_C001 \<longleftrightarrow> cid = ascii ''C001''"
  by (auto simp: Car_matches_def Car_unpack_C001 car_C001_def)

lemma Car_matches_C002: "Car_matches cid block_C002 \<longleftrightarrow> cid = ascii ''C002''"
  by (auto simp: Car_matches_def Car_unpack_C002 car_C002_def)

theorem not_found_leaves_file_witness:
  "CarRepository_update [''cars.dat'' \<mapsto> block_C001 @ block_C002] ''cars.dat''
       (ascii ''C003'') car_C001 FailReplace
     = (Inr False, [''cars.dat'' \<mapsto> block_C001 @ block_C002])
   \<and> CarRepository_mark_deleted [''cars.dat'' \<mapsto> block_C001 @ block_C002] ''cars.dat''
       (ascii ''C003'') FailReplace
     = (Inr False, [''cars.dat'' \<mapsto> block_C001 @ block_C002])"
proof -
  have "iterate_raw CAR_RECORD_SIZE (block_C001 @ block_C002) = [block_C001, block_C002]"
    by (simp add: iterate_raw_pair CAR_RECORD_SIZE_def length_block_C001 length_block_C002)
  then show ?thesis
    using not_found_leaves_file[where files = "[''cars.dat'' \<mapsto> block_C001 @ block_C002]"
        and filename = "''cars.dat''" and content = "block_C001 @ block_C002"
        and cid = "ascii ''C003''" and new_car = car_C001 and fault = FailReplace]
    by (simp add: Car_matches_C001 Car_matches_C002 ascii_def)
qed

lemma length_pack_s: "length (pack_s n b) = n"
  by (simp add: pack_s_def)

lemma length_pack_I: "pack_I v = Inr b \<Longrightarrow> length b = 4"
  by (auto simp: pack_I_def length_le_bytes split: if_splits)

lemma length_Car_pack: "Car_pack c = Inr b \<Longrightarrow> length b = CAR_RECORD_SIZE"
  by (auto simp: Car_pack_def and_then_def length_pack_s length_pack_d CAR_RECORD_SIZE_def
      split: sum.splits dest: length_pack_I)

lemma Car_update_loop_map:
  assumes "\<forall>b\<in>set raw. length b = CAR_RECORD_SIZE" "Car_pack new_car = Inr nb"
  shows "Car_update_loop cid new_car raw changed out =
    Inr (changed \<or> (\<exists>b\<in>set raw. Car_matches cid b),
         out @ map (\<lambda>b. if Car_matches cid b then nb else b) raw)"
  using assms(1)
proof (induction raw arbitrary: changed out)
  case Nil
  then show ?case by simp
next
  case (Cons b raw)
  obtain c where c: "Car_unpack b = Inr c" "Car_matches cid b \<longleftrightarrow> car_id c = cid"
    using Cons.prems Car_matches_unpack[of b cid] by auto
  show ?case
  proof (cases "car_id c = cid")
    case True
    then show ?thesis using c Cons assms(2) by (simp add: and_then_def)
  next
    case False
    then show ?thesis using c Cons by (simp add: and_then_def)
  qed
qed

lemma map_single_match:
  assumes "i < length xs" "P (xs ! i)" "\<forall>j<length xs. j \<noteq> i \<longrightarrow> \<not> P (xs ! j)"
  shows "map (\<lambda>x. if P x then y else x) xs = xs[i := y]"
  using assms by (intro nth_equalityI) (auto simp: nth_list_update)

lemma filter_single_match:
  assumes "i < length xs" "P (xs ! i)" "\<forall>j<length xs. j \<noteq> i \<longrightarrow> \<not> P (xs ! j)"
  shows "filter (\<lambda>x. \<not> P x) xs = take i xs @ drop (Suc i) xs"
proof -
  have xs: "xs = take i xs @ xs ! i # drop (Suc i) xs"
    using assms(1) by (simp add: id_take_nth_drop)
  have t: "\<forall>x\<in>set (take i xs). \<not> P x"
  proof
    fix x assume "x \<in> set (take i xs)"
    then obtain j where "j < i" "x = xs ! j"
      using assms(1) by (auto simp: in_set_conv_nth)
    then show "\<not> P x" using assms(1,3) by auto
  qed
  have d: "\<forall>x\<in>set (drop (Suc i) xs). \<not> P x"
  proof
    fix x assume "x \<in> set (drop (Suc i) xs)"
    then obtain j where "j < length xs - Suc i" "x = xs ! (Suc i + j)"
      using assms(1) by (auto simp: in_set_conv_nth)
    then show "\<not> P x" using assms(3) by auto
  qed
  have "filter (\<lambda>x. \<not> P x) xs
      = filter (\<lambda>x. \<not> P x) (take i xs @ xs ! i # drop (Suc i) xs)"
    using xs by simp
  also have "\<dots> = take i xs @ drop (Suc i) xs"
    using t d assms(2) by simp
  finally show ?thesis .
qed

lemma CarRepository_update_found:
  assumes "files filename = Some content"
    and "raw = iterate_raw CAR_RECORD_SIZE content"
    and "i < length raw" and "Car_matches cid (raw ! i)"
    and "\<forall>j<length raw. j \<noteq> i \<longrightarrow> \<not> Car_matches cid (raw ! j)"
    and "Car_pack new_car = Inr nb"
  shows "CarRepository_update files filename cid new_car NoFault =
    (Inr True, (files(filename \<mapsto> concat (raw[i := nb])))(filename @ ''.tmp'' := None))"
proof -
  have l: "\<forall>b\<in>set raw. length b = CAR_RECORD_SIZE"
    unfolding assms(2) by (rule iterate_raw_all_length)
  have m: "\<exists>b\<in>set raw. Car_matches cid b"
    using assms(3,4) nth_mem by blast
  have "Car_update_loop cid new_car raw False [] = Inr (True, raw[i := nb])"
    using Car_update_loop_map[OF l assms(6), of cid False "[]"] m
      map_single_match[of i raw "Car_matches cid" nb, OF assms(3,4,5)]
    by simp
  then show ?thesis
    using assms(1) assms(2)[symmetric]
    by (simp add: CarRepository_update_def read_all_raw_def overwrite_all_raw_NoFault)
qed

lemma read_back:
  assumes "0 < n" "\<forall>b\<in>set out. length b = n"
  shows "read_all_raw ((files(filename \<mapsto> concat out))(filename @ ''.tmp'' := None)) filename n
    = Inr out"
  using iterate_raw_blocks[OF assms, of "[]"] assms(1) by (simp add: read_all_raw_def)

text \<open>
  C3. When exactly one record of the file, the one at position \<open>i\<close>, matches the
  identifier and the new entity has an encoding, \<^verbatim>\<open>update\<close> (without an I/O failure)
  returns \<open>True\<close>, and afterwards the file is the sequence of the same number of
  records in which the record at position \<open>i\<close> is the encoding of the new entity and
  every other record is the one that stood there before.
\<close>

theorem update_replaces_one_record:
  "files filename = Some content \<and> raw = iterate_raw CAR_RECORD_SIZE content
   \<and> i < length raw \<and> Car_matches cid (raw ! i)
   \<and> (\<forall>j<length raw. j \<noteq> i \<longrightarrow> \<not> Car_matches cid (raw ! j))
   \<and> Car_pack new_car = Inr nb
   \<longrightarrow> fst (CarRepository_update files filename cid new_car NoFault) = Inr True
     \<and> read_all_raw (snd (CarRepository_update files filename cid new_car NoFault))
          filename CAR_RECORD_SIZE = Inr (raw[i := nb])
     \<and> snd (CarRepository_update files filename cid new_car NoFault) filename
          = Some (concat (raw[i := nb]))
     \<and> length (raw[i := nb]) = length raw"
proof (intro impI)
  assume a: "files filename = Some content \<and> raw = iterate_raw CAR_RECORD_SIZE content
   \<and> i < length raw \<and> Car_matches cid (raw ! i)
   \<and> (\<forall>j<length raw. j \<noteq> i \<longrightarrow> \<not> Car_matches cid (raw ! j))
   \<and> Car_pack new_car = Inr nb"
  then have a1: "files filename = Some content"
    and a2: "raw = iterate_raw CAR_RECORD_SIZE content"
    and a3: "i < length raw" and a4: "Car_matches cid (raw ! i)"
    and a5: "\<forall>j<length raw. j \<noteq> i \<longrightarrow> \<not> Car_matches cid (raw ! j)"
    and a6: "Car_pack new_car = Inr nb"
    by blast+
  have u: "CarRepository_update files filename cid new_car NoFault =
    (Inr True, (files(filename \<mapsto> concat (raw[i := nb])))(filename @ ''.tmp'' := None))"
    by (rule CarRepository_update_found[of files filename content raw i cid new_car nb,
          OF a1 a2 a3 a4 a5 a6])
  have "\<forall>b\<in>set raw. length b = CAR_RECORD_SIZE"
    unfolding a2 by (rule iterate_raw_all_length)
  moreover have "length nb = CAR_RECORD_SIZE" using a6 by (rule length_Car_pack)
  ultimately have "\<forall>b\<in>set (raw[i := nb]). length b = CAR_RECORD_SIZE"
    using set_update_subset_insert[of raw i nb] by auto
  then have "read_all_raw ((files(filename \<mapsto> concat (raw[i := nb])))(filename @ ''.tmp'' := None))
      filename CAR_RECORD_SIZE = Inr (raw[i := nb])"
    by (intro read_back) (simp_all add: CAR_RECORD_SIZE_def)
  then show "fst (CarRepository_update files filename cid new_car NoFault) = Inr True
     \<and> read_all_raw (snd (CarRepository_update files filename cid new_car NoFault))
          filename CAR_RECORD_SIZE = Inr (raw[i := nb])
     \<and> snd (CarRepository_update files filename cid new_car NoFault) filename
          = Some (concat (raw[i := nb]))
     \<and> length (raw[i := nb]) = length raw"
    unfolding u by simp
qed

lemma Car_pack_C002_rented:
  "Car_pack (car_C002\<lparr>rented := ascii ''Yes''\<rparr>) = Inr (take 92 block_C002 @ latin1 ''Yes'')"
  by (simp add: Car_pack_def car_C002_def block_C002_def eval_codec)

theorem update_replaces_one_record_witness:
  "fst (CarRepository_update [''cars.dat'' \<mapsto> block_C001 @ block_C002] ''cars.dat''
          (ascii ''C002'') (car_C002\<lparr>rented := ascii ''Yes''\<rparr>) NoFault) = Inr True
   \<and> read_all_raw
        (snd (CarRepository_update [''cars.dat'' \<mapsto> block_C001 @ block_C002] ''cars.dat''
          (ascii ''C002'') (car_C002\<lparr>rented := ascii ''Yes''\<rparr>) NoFault))
        ''cars.dat'' CAR_RECORD_SIZE
      = Inr [block_C001, take 92 block_C002 @ latin1 ''Yes'']"
proof -
  have r: "iterate_raw CAR_RECORD_SIZE (block_C001 @ block_C002) = [block_C001, block_C002]"
    by (simp add: iterate_raw_pair CAR_RECORD_SIZE_def length_block_C001 length_block_C002)
  have d: "ascii ''C002'' \<noteq> ascii ''C001''" by (simp add: ascii_def)
  show ?thesis
    using update_replaces_one_record[where files = "[''cars.dat'' \<mapsto> block_C001 @ block_C002]"
        and filename = "''cars.dat''" and content = "block_C001 @ block_C002"
        and raw = "[block_C001, block_C002]" and i = 1 and cid = "ascii ''C002''"
        and new_car = "car_C002\<lparr>rented := ascii ''Yes''\<rparr>"
        and nb = "take 92 block_C002 @ latin1 ''Yes''"]
    by (simp add: r Car_pack_C002_rented Car_matches_C001 Car_matches_C002 d less_Suc_eq)
qed

lemma delete_customer_loop_filter:
  assumes "\<forall>b\<in>set raw. length b = CUST_RECORD_SIZE"
  shows "delete_customer_loop cid raw found out =
    Inr (found \<or> (\<exists>b\<in>set raw. Customer_matches cid b),
         out @ filter (\<lambda>b. \<not> Customer_matches cid b) raw)"
  using assms
proof (induction raw arbitrary: found out)
  case Nil
  then show ?case by simp
next
  case (Cons b raw)
  obtain c where c: "Customer_unpack b = Inr c" "Customer_matches cid b \<longleftrightarrow> cust_id c = cid"
    using Cons.prems Customer_matches_unpack[of b cid] by auto
  show ?case
  proof (cases "cust_id c = cid")
    case True
    then show ?thesis using c Cons by (simp add: and_then_def)
  next
    case False
    then show ?thesis using c Cons by (simp add: and_then_def)
  qed
qed

lemma delete_customer_found:
  assumes "files filename = Some content"
    and "raw = iterate_raw CUST_RECORD_SIZE content"
    and "i < length raw" and "Customer_matches cid (raw ! i)"
    and "\<forall>j<length raw. j \<noteq> i \<longrightarrow> \<not> Customer_matches cid (raw ! j)"
  shows "delete_customer files filename cid NoFault =
    (Inr True,
     (files(filename \<mapsto> concat (take i raw @ drop (Suc i) raw)))(filename @ ''.tmp'' := None))"
proof -
  have l: "\<forall>b\<in>set raw. length b = CUST_RECORD_SIZE"
    unfolding assms(2) by (rule iterate_raw_all_length)
  have m: "\<exists>b\<in>set raw. Customer_matches cid b"
    using assms(3,4) nth_mem by blast
  have "delete_customer_loop cid raw False [] = Inr (True, take i raw @ drop (Suc i) raw)"
    using delete_customer_loop_filter[OF l, of cid False "[]"] m
      filter_single_match[of i raw "Customer_matches cid", OF assms(3,4,5)]
    by simp
  then show ?thesis
    using assms(1) assms(2)[symmetric]
    by (simp add: delete_customer_def read_all_raw_def overwrite_all_raw_NoFault)
qed

lemma delete_customer_not_found:
  assumes "files filename = Some content"
    and "\<forall>b\<in>set (iterate_raw CUST_RECORD_SIZE content). \<not> Customer_matches cid b"
  shows "delete_customer files filename cid fault = (Inr False, files)"
proof -
  have l: "\<forall>b\<in>set (iterate_raw CUST_RECORD_SIZE content). length b = CUST_RECORD_SIZE"
    by (rule iterate_raw_all_length)
  have "filter (\<lambda>b. \<not> Customer_matches cid b) (iterate_raw CUST_RECORD_SIZE content)
      = iterate_raw CUST_RECORD_SIZE content"
    using assms(2) by (simp add: filter_id_conv)
  then have "delete_customer_loop cid (iterate_raw CUST_RECORD_SIZE content) False []
      = Inr (False, iterate_raw CUST_RECORD_SIZE content)"
    using delete_customer_loop_filter[OF l, of cid False "[]"] assms(2) by simp
  then show ?thesis
    using assms(1) by (simp add: delete_customer_def read_all_raw_def)
qed

text \<open>
  C5. When exactly one record of the customer file, the one at position \<open>i\<close>, matches
  the identifier, \<^verbatim>\<open>delete_customer\<close> (without an I/O failure) finds it, and afterwards
  the file is the sequence of the other records, one fewer, each as it was and in the
  order they had. When no record matches, it reports that nothing was found and the
  file system is as it was.
\<close>

theorem delete_customer_removes_one:
  "(files filename = Some content \<and> raw = iterate_raw CUST_RECORD_SIZE content
      \<and> i < length raw \<and> Customer_matches cid (raw ! i)
      \<and> (\<forall>j<length raw. j \<noteq> i \<longrightarrow> \<not> Customer_matches cid (raw ! j))
    \<longrightarrow> fst (delete_customer files filename cid NoFault) = Inr True
      \<and> read_all_raw (snd (delete_customer files filename cid NoFault))
           filename CUST_RECORD_SIZE = Inr (take i raw @ drop (Suc i) raw)
      \<and> length (take i raw @ drop (Suc i) raw) = length raw - 1)
   \<and> (files filename = Some content
      \<and> (\<forall>b\<in>set (iterate_raw CUST_RECORD_SIZE content). \<not> Customer_matches cid b)
    \<longrightarrow> delete_customer files filename cid fault = (Inr False, files))"
proof (intro conjI impI)
  assume a: "files filename = Some content \<and> raw = iterate_raw CUST_RECORD_SIZE content
      \<and> i < length raw \<and> Customer_matches cid (raw ! i)
      \<and> (\<forall>j<length raw. j \<noteq> i \<longrightarrow> \<not> Customer_matches cid (raw ! j))"
  then have a1: "files filename = Some content"
    and a2: "raw = iterate_raw CUST_RECORD_SIZE content"
    and a3: "i < length raw" and a4: "Customer_matches cid (raw ! i)"
    and a5: "\<forall>j<length raw. j \<noteq> i \<longrightarrow> \<not> Customer_matches cid (raw ! j)"
    by blast+
  have u: "delete_customer files filename cid NoFault =
    (Inr True,
     (files(filename \<mapsto> concat (take i raw @ drop (Suc i) raw)))(filename @ ''.tmp'' := None))"
    by (rule delete_customer_found[of files filename content raw i cid, OF a1 a2 a3 a4 a5])
  have "\<forall>b\<in>set raw. length b = CUST_RECORD_SIZE"
    unfolding a2 by (rule iterate_raw_all_length)
  then have "\<forall>b\<in>set (take i raw @ drop (Suc i) raw). length b = CUST_RECORD_SIZE"
    by (auto dest: in_set_takeD in_set_dropD)
  then have r: "read_all_raw
      ((files(filename \<mapsto> concat (take i raw @ drop (Suc i) raw)))(filename @ ''.tmp'' := None))
      filename CUST_RECORD_SIZE = Inr (take i raw @ drop (Suc i) raw)"
    by (intro read_back) (simp_all add: CUST_RECORD_SIZE_def)
  show "fst (delete_customer files filename cid NoFault) = Inr True"
    unfolding u by simp
  show "read_all_raw (snd (delete_customer files filename cid NoFault))
           filename CUST_RECORD_SIZE = Inr (take i raw @ drop (Suc i) raw)"
    unfolding u using r by simp
  show "length (take i raw @ drop (Suc i) raw) = length raw - 1"
    using a3 by simp
next
  assume "files filename = Some content
      \<and> (\<forall>b\<in>set (iterate_raw CUST_RECORD_SIZE content). \<not> Customer_matches cid b)"
  then show "delete_customer files filename cid fault = (Inr False, files)"
    using delete_customer_not_found[of files filename content cid fault] by blast
qed

lemma Customer_matches_U001: "Customer_matches cid block_U001 \<longleftrightarrow> cid = ascii ''U001''"
  by (auto simp: Customer_matches_def Customer_unpack_U001 customer_U001_def)

lemma Customer_matches_U002: "Customer_matches cid block_U002 \<longleftrightarrow> cid = ascii ''U002''"
  by (auto simp: Customer_matches_def Customer_unpack_U002 customer_U002_def)

theorem delete_customer_removes_one_witness:
  "fst (delete_customer [''customers.dat'' \<mapsto> block_U001 @ block_U002] ''customers.dat''
          (ascii ''U001'') NoFault) = Inr True
   \<and> read_all_raw
        (snd (delete_customer [''customers.dat'' \<mapsto> block_U001 @ block_U002] ''customers.dat''
          (ascii ''U001'') NoFault))
        ''customers.dat'' CUST_RECORD_SIZE = Inr [block_U002]
   \<and> delete_customer [''customers.dat'' \<mapsto> block_U001 @ block_U002] ''customers.dat''
        (ascii ''U009'') NoFault
      = (Inr False, [''customers.dat'' \<mapsto> block_U001 @ block_U002])"
proof -
  have r: "iterate_raw CUST_RECORD_SIZE (block_U001 @ block_U002) = [block_U001, block_U002]"
    by (simp add: iterate_raw_pair CUST_RECORD_SIZE_def length_block_U001 length_block_U002)
  have d: "ascii ''U001'' \<noteq> ascii ''U002''" "ascii ''U009'' \<noteq> ascii ''U001''"
    "ascii ''U009'' \<noteq> ascii ''U002''"
    by (simp_all add: ascii_def)
  note t = delete_customer_removes_one[where
      files = "[''customers.dat'' \<mapsto> block_U001 @ block_U002]"
      and filename = "''customers.dat''" and content = "block_U001 @ block_U002"
      and raw = "[block_U001, block_U002]" and i = 0 and fault = NoFault]
  show ?thesis
    using t[where cid = "ascii ''U001''"] t[where cid = "ascii ''U009''"]
    by (simp add: r Customer_matches_U001 Customer_matches_U002 d)
qed

lemma decode_loop_reencode:
  "decode_loop h bs = Inr s \<Longrightarrow> \<exists>e. encode_loop s = Inr e \<and> length e \<le> length bs"
proof (induction bs arbitrary: s rule: length_induct)
  case (1 bs)
  show ?case
  proof (cases bs)
    case Nil
    then show ?thesis using 1(2) by auto
  next
    case (Cons ch r)
    have IH: "\<exists>e. encode_loop t = Inr e \<and> length e \<le> length (drop k r)"
      if "decode_loop h (drop k r) = Inr t" for k t
    proof -
      have "length (drop k r) < length bs" using Cons by simp
      then show ?thesis using 1(1) that by blast
    qed
    show ?thesis
    proof (cases "utf8_step ch r")
      case (Decoded cp n)
      then obtain t where t: "decode_loop h (drop (n - 1) r) = Inr t" and s: "s = cp # t"
        using 1(2) Cons by (auto split: sum.splits)
      obtain e where e: "encode_loop t = Inr e" "length e \<le> length (drop (n - 1) r)"
        using IH[OF t] by blast
      have c: "encode_char cp = Inr (ch # take (n - 1) r)" "n - 1 \<le> length r"
        using utf8_step_Decoded[OF Decoded] by simp_all
      have "encode_loop s = Inr ((ch # take (n - 1) r) @ e)"
        using s c(1) e(1) by simp
      moreover have "length ((ch # take (n - 1) r) @ e) \<le> length bs"
        using e(2) c(2) Cons by simp
      ultimately show ?thesis by blast
    next
      case (Invalid n)
      then have t: "decode_loop h (drop (n - 1) r) = Inr s"
        using 1(2) Cons by (cases h) auto
      obtain e where e: "encode_loop s = Inr e" "length e \<le> length (drop (n - 1) r)"
        using IH[OF t] by blast
      then have "length e \<le> length bs" using Cons by simp
      then show ?thesis using e(1) by blast
    next
      case UnexpectedEnd
      then have "s = []" using 1(2) Cons by (cases h) auto
      then show ?thesis by simp
    qed
  qed
qed

lemma map_of_nat_length: "length (map of_nat e :: bytes) = length e"
  by simp

lemma bytes_to_str_fits:
  assumes "bytes_to_str x = Inr s"
  shows "fits s (length x)"
proof -
  have d: "decode_loop Ignore (map unat (rstrip x)) = Inr s"
    using assms by (simp add: bytes_to_str_def utf8_decode_def)
  obtain e where e: "encode_loop s = Inr e" "length e \<le> length (map unat (rstrip x))"
    using decode_loop_reencode[OF d] by blast
  have "length (rstrip x) \<le> length x"
    by (simp add: rstrip_def) (metis length_dropWhile_le length_rev)
  then show ?thesis using e by (simp add: fits_def utf8_encode_def)
qed

lemma le_value_bound: "le_value b < 256 ^ length b"
proof (induction b)
  case Nil
  then show ?case by simp
next
  case (Cons x b)
  have "unat x < 256" using unsigned_less[of x] by simp
  then have "unat x + 256 * le_value b < 256 + 256 * le_value b" by simp
  also have "\<dots> = 256 * (le_value b + 1)" by simp
  also have "\<dots> \<le> 256 * 256 ^ length b" using Cons by (simp add: Suc_leI)
  finally show ?case by simp
qed

lemma field_length: "i + n \<le> length b \<Longrightarrow> length (field i n b) = n"
  by (simp add: field_def)

lemma Car_unpack_within_bounds:
  assumes "Car_unpack b = Inr c"
  shows "Car_within_bounds c"
proof -
  have l: "length b = 95"
    using assms by (auto simp: Car_unpack_def CAR_RECORD_SIZE_def split: if_splits)
  obtain f0 f1 f2 f3 f6 f7 where
    f: "bytes_to_str (field 0 10 b) = Inr f0" "bytes_to_str (field 10 10 b) = Inr f1"
    "bytes_to_str (field 20 20 b) = Inr f2" "bytes_to_str (field 40 30 b) = Inr f3"
    "bytes_to_str (field 82 10 b) = Inr f6" "bytes_to_str (field 92 3 b) = Inr f7"
    using bytes_to_str_total by meson
  have c: "c = \<lparr>car_id = f0, plate = f1, brand = f2, model = f3,
      year = unpack_I (field 70 4 b), price_per_day = unpack_d (field 74 8 b),
      status = f6, rented = f7\<rparr>"
    using assms l f by (simp add: Car_unpack_def CAR_RECORD_SIZE_def and_then_def)
  have "le_value (field 70 4 b) < 256 ^ 4"
    using le_value_bound[of "field 70 4 b"] l by (simp add: field_length)
  then have y: "unpack_I (field 70 4 b) < 4294967296" "0 \<le> unpack_I (field 70 4 b)"
    by (simp_all add: unpack_I_def)
  show ?thesis
    unfolding Car_within_bounds_def c
    using f[THEN bytes_to_str_fits] y l by (simp add: field_length)
qed

lemma text_field_repack:
  assumes "fits s w"
  obtains fb t where "fixed_bytes s (int w) = Inr fb" "length fb = w"
    "bytes_to_str fb = Inr t" "\<not> ends_with_space s \<longrightarrow> t = s"
proof -
  obtain e where e: "utf8_encode s = Inr e" and l: "length e \<le> w"
    using assms by (auto simp: fits_def split: sum.splits)
  define fb where "fb = e @ replicate (w - length e) 32"
  have 1: "fixed_bytes s (int w) = Inr fb"
    unfolding fb_def using e l by (rule fixed_bytes_fits)
  have 2: "length fb = w" using l by (simp add: fb_def)
  obtain t where 3: "bytes_to_str fb = Inr t" using bytes_to_str_total by blast
  have 4: "\<not> ends_with_space s \<longrightarrow> t = s"
    using 3 bytes_to_str_padded[OF e] by (auto simp: fb_def)
  show thesis using that[OF 1 2 3 4] .
qed

lemma Car_repack:
  assumes "Car_within_bounds c"
  shows "\<exists>b d. Car_pack c = Inr b \<and> Car_unpack b = Inr d
    \<and> year d = year c \<and> price_per_day d = price_per_day c
    \<and> (\<not> ends_with_space (car_id c) \<longrightarrow> car_id d = car_id c)
    \<and> (\<not> ends_with_space (plate c) \<longrightarrow> plate d = plate c)
    \<and> (\<not> ends_with_space (brand c) \<longrightarrow> brand d = brand c)
    \<and> (\<not> ends_with_space (model c) \<longrightarrow> model d = model c)
    \<and> (\<not> ends_with_space (status c) \<longrightarrow> status d = status c)
    \<and> (\<not> ends_with_space (rented c) \<longrightarrow> rented d = rented c)"
proof -
  have w: "fits (car_id c) 10" "fits (plate c) 10" "fits (brand c) 20" "fits (model c) 30"
    "fits (status c) 10" "fits (rented c) 3" "0 \<le> year c" "year c < 4294967296"
    using assms by (simp_all add: Car_within_bounds_def)
  obtain f0 t0 where f0: "fixed_bytes (car_id c) 10 = Inr f0" "length f0 = 10"
    "bytes_to_str f0 = Inr t0" "\<not> ends_with_space (car_id c) \<longrightarrow> t0 = car_id c"
    using text_field_repack[OF w(1)] by auto
  obtain f1 t1 where f1: "fixed_bytes (plate c) 10 = Inr f1" "length f1 = 10"
    "bytes_to_str f1 = Inr t1" "\<not> ends_with_space (plate c) \<longrightarrow> t1 = plate c"
    using text_field_repack[OF w(2)] by auto
  obtain f2 t2 where f2: "fixed_bytes (brand c) 20 = Inr f2" "length f2 = 20"
    "bytes_to_str f2 = Inr t2" "\<not> ends_with_space (brand c) \<longrightarrow> t2 = brand c"
    using text_field_repack[OF w(3)] by auto
  obtain f3 t3 where f3: "fixed_bytes (model c) 30 = Inr f3" "length f3 = 30"
    "bytes_to_str f3 = Inr t3" "\<not> ends_with_space (model c) \<longrightarrow> t3 = model c"
    using text_field_repack[OF w(4)] by auto
  obtain f6 t6 where f6: "fixed_bytes (status c) 10 = Inr f6" "length f6 = 10"
    "bytes_to_str f6 = Inr t6" "\<not> ends_with_space (status c) \<longrightarrow> t6 = status c"
    using text_field_repack[OF w(5)] by auto
  obtain f7 t7 where f7: "fixed_bytes (rented c) 3 = Inr f7" "length f7 = 3"
    "bytes_to_str f7 = Inr t7" "\<not> ends_with_space (rented c) \<longrightarrow> t7 = rented c"
    using text_field_repack[OF w(6)] by auto
  obtain f4 where f4: "pack_I (year c) = Inr f4"
    using w(7,8) by (simp add: pack_I_def)
  note i = unpack_pack_I[OF f4]
  define b where "b = f0 @ f1 @ f2 @ f3 @ f4 @ pack_d (price_per_day c) @ f6 @ f7"
  define d where "d = \<lparr>car_id = t0, plate = t1, brand = t2, model = t3, year = year c,
    price_per_day = price_per_day c, status = t6, rented = t7\<rparr>"
  have p: "Car_pack c = Inr b"
    by (simp add: Car_pack_def and_then_def f0(1,2) f1(1,2) f2(1,2) f3(1,2) f4 f6(1,2)
        f7(1,2) pack_s_exact b_def)
  have u: "Car_unpack b = Inr d"
    unfolding b_def d_def
    by (subst Car_unpack_concat)
      (simp_all add: f0(2,3) f1(2,3) f2(2,3) f3(2,3) f6(2,3) f7(2,3) i length_pack_d
        and_then_def unpack_pack_d)
  have "year d = year c \<and> price_per_day d = price_per_day c
    \<and> (\<not> ends_with_space (car_id c) \<longrightarrow> car_id d = car_id c)
    \<and> (\<not> ends_with_space (plate c) \<longrightarrow> plate d = plate c)
    \<and> (\<not> ends_with_space (brand c) \<longrightarrow> brand d = brand c)
    \<and> (\<not> ends_with_space (model c) \<longrightarrow> model d = model c)
    \<and> (\<not> ends_with_space (status c) \<longrightarrow> status d = status c)
    \<and> (\<not> ends_with_space (rented c) \<longrightarrow> rented d = rented c)"
    using f0(4) f1(4) f2(4) f3(4) f6(4) f7(4) by (simp add: d_def)
  then show ?thesis using p u by blast
qed

lemma Car_mark_deleted_loop_map:
  assumes "\<forall>b\<in>set raw. length b = CAR_RECORD_SIZE"
    and "\<forall>b\<in>set raw. \<forall>c. Car_matches cid b \<longrightarrow> Car_unpack b = Inr c
      \<longrightarrow> Car_pack (c\<lparr>status := ascii ''Deleted''\<rparr>) = Inr nb"
  shows "Car_mark_deleted_loop cid raw changed out =
    Inr (changed \<or> (\<exists>b\<in>set raw. Car_matches cid b),
         out @ map (\<lambda>b. if Car_matches cid b then nb else b) raw)"
  using assms
proof (induction raw arbitrary: changed out)
  case Nil
  then show ?case by simp
next
  case (Cons b raw)
  obtain c where c: "Car_unpack b = Inr c" "Car_matches cid b \<longleftrightarrow> car_id c = cid"
    using Cons.prems(1) Car_matches_unpack[of b cid] by auto
  have IH: "Car_mark_deleted_loop cid raw ch o2 =
    Inr (ch \<or> (\<exists>b\<in>set raw. Car_matches cid b),
         o2 @ map (\<lambda>b. if Car_matches cid b then nb else b) raw)" for ch o2
    using Cons.IH[of ch o2] Cons.prems by simp
  show ?case
  proof (cases "car_id c = cid")
    case True
    then have "Car_pack (c\<lparr>status := ascii ''Deleted''\<rparr>) = Inr nb"
      using Cons.prems(2) c by simp
    then show ?thesis using c True IH by (simp add: and_then_def)
  next
    case False
    then show ?thesis using c IH by (simp add: and_then_def)
  qed
qed




lemma Car_pack_negative_year: "Car_pack (car_C002\<lparr>year := - 1\<rparr>) = Inl StructError"
  by (simp add: Car_pack_def car_C002_def eval_codec)

text \<open>
  The claim as it is written fails for a new entity that has no encoding. With two
  records in the file, of which exactly the second matches \<open>C002\<close>, \<^verbatim>\<open>update\<close> with a
  vehicle whose year is \<open>-1\<close> raises \<^verbatim>\<open>struct.error\<close> at \<^verbatim>\<open>new_car.pack()\<close>; it
  returns nothing and the file is as it was.
\<close>

theorem update_without_encoding_counterexample:
  "\<not> Car_matches (ascii ''C002'') block_C001 \<and> Car_matches (ascii ''C002'') block_C002
   \<and> CarRepository_update [''cars.dat'' \<mapsto> block_C001 @ block_C002] ''cars.dat''
       (ascii ''C002'') (car_C002\<lparr>year := - 1\<rparr>) NoFault
     = (Inl StructError, [''cars.dat'' \<mapsto> block_C001 @ block_C002])"
proof (intro conjI)
  have n: "ascii ''C002'' \<noteq> ascii ''C001''" by (simp add: ascii_def)
  show "\<not> Car_matches (ascii ''C002'') block_C001"
    by (simp add: Car_matches_C001 n)
  show "Car_matches (ascii ''C002'') block_C002"
    by (simp add: Car_matches_C002)
  have r: "iterate_raw CAR_RECORD_SIZE (block_C001 @ block_C002) = [block_C001, block_C002]"
    by (simp add: iterate_raw_pair CAR_RECORD_SIZE_def length_block_C001 length_block_C002)
  have i: "car_id car_C001 = ascii ''C001''" "car_id car_C002 = ascii ''C002''"
    by (simp_all add: car_C001_def car_C002_def)
  show "CarRepository_update [''cars.dat'' \<mapsto> block_C001 @ block_C002] ''cars.dat''
       (ascii ''C002'') (car_C002\<lparr>year := - 1\<rparr>) NoFault
     = (Inl StructError, [''cars.dat'' \<mapsto> block_C001 @ block_C002])"
    by (simp add: CarRepository_update_def read_all_raw_def r and_then_def Car_unpack_C001
        Car_unpack_C002 i n[symmetric] Car_pack_negative_year)
qed

lemma Car_pack_C007: "Car_pack car_C007 = Inr block_C007"
  by (simp add: Car_pack_def car_C007_def block_C007_def eval_codec)

lemma length_block_C007: "length block_C007 = 95"
  by (simp add: block_C007_def latin1_def)

lemma Car_unpack_C007:
  "Car_unpack block_C007 = Inr (car_C007\<lparr>brand := ascii ''Mercedes-Benz Vans ''\<rparr>)"
  by (simp add: Car_unpack_def car_C007_def block_C007_def eval_codec CAR_RECORD_SIZE_def)

lemma Car_pack_C007_deleted:
  "Car_pack (car_C007\<lparr>brand := ascii ''Mercedes-Benz Vans '', status := ascii ''Deleted''\<rparr>)
    = Inr block_C007_deleted"
  by (simp add: Car_pack_def car_C007_def block_C007_deleted_def eval_codec)

lemma length_block_C007_deleted: "length block_C007_deleted = 95"
  by (simp add: block_C007_deleted_def latin1_def)

lemma Car_unpack_C007_deleted:
  "Car_unpack block_C007_deleted
    = Inr (car_C007\<lparr>brand := ascii ''Mercedes-Benz Vans'', status := ascii ''Deleted''\<rparr>)"
  by (simp add: Car_unpack_def car_C007_def block_C007_deleted_def eval_codec
      CAR_RECORD_SIZE_def)

lemma Deleted_fits: "fits (ascii ''Deleted'') 10" "\<not> ends_with_space (ascii ''Deleted'')"
  by (simp_all add: fits_def ends_with_space_def ascii_def utf8_encode_def encode_char_def)

lemma Car_mark_deleted_repack:
  assumes "Car_unpack b = Inr c"
  shows "\<exists>nb d. Car_pack (c\<lparr>status := ascii ''Deleted''\<rparr>) = Inr nb \<and> Car_unpack nb = Inr d
    \<and> status d = ascii ''Deleted'' \<and> year d = year c \<and> price_per_day d = price_per_day c
    \<and> (\<not> ends_with_space (car_id c) \<longrightarrow> car_id d = car_id c)
    \<and> (\<not> ends_with_space (plate c) \<longrightarrow> plate d = plate c)
    \<and> (\<not> ends_with_space (brand c) \<longrightarrow> brand d = brand c)
    \<and> (\<not> ends_with_space (model c) \<longrightarrow> model d = model c)
    \<and> (\<not> ends_with_space (rented c) \<longrightarrow> rented d = rented c)"
proof -
  have "Car_within_bounds c" using assms by (rule Car_unpack_within_bounds)
  then have "Car_within_bounds (c\<lparr>status := ascii ''Deleted''\<rparr>)"
    using Deleted_fits(1) by (simp add: Car_within_bounds_def)
  then show ?thesis
    using Car_repack[of "c\<lparr>status := ascii ''Deleted''\<rparr>"] Deleted_fits(2) by auto
qed

lemma CarRepository_mark_deleted_found:
  assumes "files filename = Some content"
    and "raw = iterate_raw CAR_RECORD_SIZE content"
    and "i < length raw" and "Car_matches cid (raw ! i)"
    and "\<forall>j<length raw. j \<noteq> i \<longrightarrow> \<not> Car_matches cid (raw ! j)"
    and "Car_unpack (raw ! i) = Inr c"
    and "Car_pack (c\<lparr>status := ascii ''Deleted''\<rparr>) = Inr nb"
  shows "CarRepository_mark_deleted files filename cid NoFault =
    (Inr True, (files(filename \<mapsto> concat (raw[i := nb])))(filename @ ''.tmp'' := None))"
proof -
  have l: "\<forall>b\<in>set raw. length b = CAR_RECORD_SIZE"
    unfolding assms(2) by (rule iterate_raw_all_length)
  have m: "\<exists>b\<in>set raw. Car_matches cid b"
    using assms(3,4) nth_mem by blast
  have p: "\<forall>b\<in>set raw. \<forall>c. Car_matches cid b \<longrightarrow> Car_unpack b = Inr c
      \<longrightarrow> Car_pack (c\<lparr>status := ascii ''Deleted''\<rparr>) = Inr nb"
  proof (intro ballI allI impI)
    fix b c'
    assume b: "b \<in> set raw" "Car_matches cid b" "Car_unpack b = Inr c'"
    then obtain j where j: "j < length raw" "b = raw ! j"
      by (auto simp: in_set_conv_nth)
    then have "j = i" using assms(5) b(2) by blast
    then have "c' = c" using b(3) j(2) assms(6) by simp
    then show "Car_pack (c'\<lparr>status := ascii ''Deleted''\<rparr>) = Inr nb"
      using assms(7) by simp
  qed
  have "Car_mark_deleted_loop cid raw False [] = Inr (True, raw[i := nb])"
    using Car_mark_deleted_loop_map[OF l p, of False "[]"] m
      map_single_match[of i raw "Car_matches cid" nb, OF assms(3,4,5)]
    by simp
  then show ?thesis
    using assms(1) assms(2)[symmetric]
    by (simp add: CarRepository_mark_deleted_def read_all_raw_def overwrite_all_raw_NoFault)
qed

text \<open>
  C6. When exactly one record of the file, the one at position \<open>i\<close>, matches the
  identifier, \<^verbatim>\<open>mark_deleted\<close> (without an I/O failure) returns \<open>True\<close>; afterwards the
  file has the same number of records, every other record is the one that stood there,
  and the record at position \<open>i\<close> decodes to an entity whose status is \<open>Deleted\<close>,
  whose year and price are the old ones, and whose every other text field is the old
  one unless the old one ended with a space. The record is encoded again from its
  decoded fields, so a decoded field that ends with a space comes back without it.
\<close>

theorem mark_deleted_sets_status:
  "files filename = Some content \<and> raw = iterate_raw CAR_RECORD_SIZE content
   \<and> i < length raw \<and> Car_matches cid (raw ! i)
   \<and> (\<forall>j<length raw. j \<noteq> i \<longrightarrow> \<not> Car_matches cid (raw ! j))
   \<and> Car_unpack (raw ! i) = Inr c
   \<longrightarrow> fst (CarRepository_mark_deleted files filename cid NoFault) = Inr True
     \<and> (\<exists>nb d.
          read_all_raw (snd (CarRepository_mark_deleted files filename cid NoFault))
            filename CAR_RECORD_SIZE = Inr (raw[i := nb])
          \<and> length (raw[i := nb]) = length raw
          \<and> Car_unpack nb = Inr d
          \<and> status d = ascii ''Deleted'' \<and> year d = year c
          \<and> price_per_day d = price_per_day c
          \<and> (\<not> ends_with_space (car_id c) \<longrightarrow> car_id d = car_id c)
          \<and> (\<not> ends_with_space (plate c) \<longrightarrow> plate d = plate c)
          \<and> (\<not> ends_with_space (brand c) \<longrightarrow> brand d = brand c)
          \<and> (\<not> ends_with_space (model c) \<longrightarrow> model d = model c)
          \<and> (\<not> ends_with_space (rented c) \<longrightarrow> rented d = rented c))"
proof (intro impI)
  assume a: "files filename = Some content \<and> raw = iterate_raw CAR_RECORD_SIZE content
   \<and> i < length raw \<and> Car_matches cid (raw ! i)
   \<and> (\<forall>j<length raw. j \<noteq> i \<longrightarrow> \<not> Car_matches cid (raw ! j))
   \<and> Car_unpack (raw ! i) = Inr c"
  then have a1: "files filename = Some content"
    and a2: "raw = iterate_raw CAR_RECORD_SIZE content"
    and a3: "i < length raw" and a4: "Car_matches cid (raw ! i)"
    and a5: "\<forall>j<length raw. j \<noteq> i \<longrightarrow> \<not> Car_matches cid (raw ! j)"
    and a6: "Car_unpack (raw ! i) = Inr c"
    by blast+
  obtain nb d where nb: "Car_pack (c\<lparr>status := ascii ''Deleted''\<rparr>) = Inr nb"
    and d: "Car_unpack nb = Inr d" "status d = ascii ''Deleted''" "year d = year c"
      "price_per_day d = price_per_day c"
      "\<not> ends_with_space (car_id c) \<longrightarrow> car_id d = car_id c"
      "\<not> ends_with_space (plate c) \<longrightarrow> plate d = plate c"
      "\<not> ends_with_space (brand c) \<longrightarrow> brand d = brand c"
      "\<not> ends_with_space (model c) \<longrightarrow> model d = model c"
      "\<not> ends_with_space (rented c) \<longrightarrow> rented d = rented c"
    using Car_mark_deleted_repack[OF a6] by blast
  have u: "CarRepository_mark_deleted files filename cid NoFault =
    (Inr True, (files(filename \<mapsto> concat (raw[i := nb])))(filename @ ''.tmp'' := None))"
    by (rule CarRepository_mark_deleted_found[of files filename content raw i cid c nb,
          OF a1 a2 a3 a4 a5 a6 nb])
  have "\<forall>b\<in>set raw. length b = CAR_RECORD_SIZE"
    unfolding a2 by (rule iterate_raw_all_length)
  moreover have "length nb = CAR_RECORD_SIZE" using nb by (rule length_Car_pack)
  ultimately have "\<forall>b\<in>set (raw[i := nb]). length b = CAR_RECORD_SIZE"
    using set_update_subset_insert[of raw i nb] by auto
  then have r: "read_all_raw
      ((files(filename \<mapsto> concat (raw[i := nb])))(filename @ ''.tmp'' := None))
      filename CAR_RECORD_SIZE = Inr (raw[i := nb])"
    by (intro read_back) (simp_all add: CAR_RECORD_SIZE_def)
  have "read_all_raw (snd (CarRepository_mark_deleted files filename cid NoFault))
            filename CAR_RECORD_SIZE = Inr (raw[i := nb])"
    unfolding u using r by simp
  moreover have "length (raw[i := nb]) = length raw" by simp
  moreover have "fst (CarRepository_mark_deleted files filename cid NoFault) = Inr True"
    unfolding u by simp
  ultimately show "fst (CarRepository_mark_deleted files filename cid NoFault) = Inr True
     \<and> (\<exists>nb d.
          read_all_raw (snd (CarRepository_mark_deleted files filename cid NoFault))
            filename CAR_RECORD_SIZE = Inr (raw[i := nb])
          \<and> length (raw[i := nb]) = length raw
          \<and> Car_unpack nb = Inr d
          \<and> status d = ascii ''Deleted'' \<and> year d = year c
          \<and> price_per_day d = price_per_day c
          \<and> (\<not> ends_with_space (car_id c) \<longrightarrow> car_id d = car_id c)
          \<and> (\<not> ends_with_space (plate c) \<longrightarrow> plate d = plate c)
          \<and> (\<not> ends_with_space (brand c) \<longrightarrow> brand d = brand c)
          \<and> (\<not> ends_with_space (model c) \<longrightarrow> model d = model c)
          \<and> (\<not> ends_with_space (rented c) \<longrightarrow> rented d = rented c))"
    using d by blast
qed

lemma iterate_raw_empty: "iterate_raw n [] = []"
  by (simp add: iterate_raw.simps)

lemma Car_matches_C007: "Car_matches cid block_C007 \<longleftrightarrow> cid = ascii ''C007''"
  by (auto simp: Car_matches_def Car_unpack_C007 car_C007_def)

theorem mark_deleted_sets_status_witness:
  "fst (CarRepository_mark_deleted [''cars.dat'' \<mapsto> block_C001 @ block_C002] ''cars.dat''
          (ascii ''C001'') NoFault) = Inr True
   \<and> (\<exists>nb d.
        read_all_raw
          (snd (CarRepository_mark_deleted [''cars.dat'' \<mapsto> block_C001 @ block_C002]
                  ''cars.dat'' (ascii ''C001'') NoFault))
          ''cars.dat'' CAR_RECORD_SIZE = Inr [nb, block_C002]
        \<and> Car_unpack nb = Inr d
        \<and> status d = ascii ''Deleted'' \<and> year d = 2023
        \<and> price_per_day d = 0x40A3880000000000
        \<and> car_id d = ascii ''C001'' \<and> plate d = ascii ''AB1234''
        \<and> brand d = ascii ''Toyota'' \<and> model d = ascii ''Camry''
        \<and> rented d = ascii ''No'')"
proof -
  have r: "iterate_raw CAR_RECORD_SIZE (block_C001 @ block_C002) = [block_C001, block_C002]"
    by (simp add: iterate_raw_pair CAR_RECORD_SIZE_def length_block_C001 length_block_C002)
  have n: "ascii ''C001'' \<noteq> ascii ''C002''" by (simp add: ascii_def)
  have e: "\<not> ends_with_space (ascii ''C001'')" "\<not> ends_with_space (ascii ''AB1234'')"
    "\<not> ends_with_space (ascii ''Toyota'')" "\<not> ends_with_space (ascii ''Camry'')"
    "\<not> ends_with_space (ascii ''No'')"
    by (simp_all add: ends_with_space_def ascii_def)
  have f: "year car_C001 = 2023" "price_per_day car_C001 = 0x40A3880000000000"
    "car_id car_C001 = ascii ''C001''" "plate car_C001 = ascii ''AB1234''"
    "brand car_C001 = ascii ''Toyota''" "model car_C001 = ascii ''Camry''"
    "rented car_C001 = ascii ''No''"
    by (simp_all add: car_C001_def)
  have h: "[''cars.dat'' \<mapsto> block_C001 @ block_C002] ''cars.dat''
        = Some (block_C001 @ block_C002)
     \<and> [block_C001, block_C002] = iterate_raw CAR_RECORD_SIZE (block_C001 @ block_C002)
     \<and> 0 < length [block_C001, block_C002]
     \<and> Car_matches (ascii ''C001'') ([block_C001, block_C002] ! 0)
     \<and> (\<forall>j<length [block_C001, block_C002]. j \<noteq> 0
          \<longrightarrow> \<not> Car_matches (ascii ''C001'') ([block_C001, block_C002] ! j))
     \<and> Car_unpack ([block_C001, block_C002] ! 0) = Inr car_C001"
    by (simp add: r Car_matches_C001 Car_matches_C002 n Car_unpack_C001 less_Suc_eq)
  have "fst (CarRepository_mark_deleted [''cars.dat'' \<mapsto> block_C001 @ block_C002]
        ''cars.dat'' (ascii ''C001'') NoFault) = Inr True
     \<and> (\<exists>nb d.
          read_all_raw (snd (CarRepository_mark_deleted
              [''cars.dat'' \<mapsto> block_C001 @ block_C002] ''cars.dat'' (ascii ''C001'') NoFault))
            ''cars.dat'' CAR_RECORD_SIZE = Inr ([block_C001, block_C002][0 := nb])
          \<and> length ([block_C001, block_C002][0 := nb]) = length [block_C001, block_C002]
          \<and> Car_unpack nb = Inr d
          \<and> status d = ascii ''Deleted'' \<and> year d = year car_C001
          \<and> price_per_day d = price_per_day car_C001
          \<and> (\<not> ends_with_space (car_id car_C001) \<longrightarrow> car_id d = car_id car_C001)
          \<and> (\<not> ends_with_space (plate car_C001) \<longrightarrow> plate d = plate car_C001)
          \<and> (\<not> ends_with_space (brand car_C001) \<longrightarrow> brand d = brand car_C001)
          \<and> (\<not> ends_with_space (model car_C001) \<longrightarrow> model d = model car_C001)
          \<and> (\<not> ends_with_space (rented car_C001) \<longrightarrow> rented d = rented car_C001))"
    by (rule mark_deleted_sets_status[where files = "[''cars.dat'' \<mapsto> block_C001 @ block_C002]"
        and filename = "''cars.dat''" and content = "block_C001 @ block_C002"
        and raw = "[block_C001, block_C002]" and i = 0 and cid = "ascii ''C001''"
        and c = car_C001, THEN mp, OF h])
  then show ?thesis
    by (simp add: e f)
qed

text \<open>
  The claim as it is written fails on a record that the repository wrote itself.
  \<^verbatim>\<open>add\<close> of the vehicle \<open>C007\<close> to an empty file truncates its brand inside the
  last character; the stored vehicle has the brand with its final space; after
  \<^verbatim>\<open>mark_deleted\<close> the stored vehicle has the brand without that space.
\<close>

theorem mark_deleted_changes_brand_counterexample:
  "CarRepository_add [''cars.dat'' \<mapsto> []] ''cars.dat'' car_C007
     = (Inr True, [''cars.dat'' \<mapsto> block_C007])
   \<and> CarRepository_all [''cars.dat'' \<mapsto> block_C007] ''cars.dat''
     = Inr [car_C007\<lparr>brand := ascii ''Mercedes-Benz Vans ''\<rparr>]
   \<and> fst (CarRepository_mark_deleted [''cars.dat'' \<mapsto> block_C007] ''cars.dat''
            (ascii ''C007'') NoFault) = Inr True
   \<and> CarRepository_all
        (snd (CarRepository_mark_deleted [''cars.dat'' \<mapsto> block_C007] ''cars.dat''
               (ascii ''C007'') NoFault)) ''cars.dat''
     = Inr [car_C007\<lparr>brand := ascii ''Mercedes-Benz Vans'', status := ascii ''Deleted''\<rparr>]
   \<and> ascii ''Mercedes-Benz Vans'' \<noteq> ascii ''Mercedes-Benz Vans ''"
proof (intro conjI)
  show "CarRepository_add [''cars.dat'' \<mapsto> []] ''cars.dat'' car_C007
     = (Inr True, [''cars.dat'' \<mapsto> block_C007])"
    by (simp add: CarRepository_add_def CarRepository_find_def CarRepository_all_def
        read_all_raw_def iterate_raw_empty and_then_def Car_pack_C007 append_raw_def)
  have r: "iterate_raw CAR_RECORD_SIZE block_C007 = [block_C007]"
    by (simp add: iterate_raw_single CAR_RECORD_SIZE_def length_block_C007)
  show "CarRepository_all [''cars.dat'' \<mapsto> block_C007] ''cars.dat''
     = Inr [car_C007\<lparr>brand := ascii ''Mercedes-Benz Vans ''\<rparr>]"
    by (simp add: CarRepository_all_def read_all_raw_def r and_then_def Car_unpack_C007)
  have m: "CarRepository_mark_deleted [''cars.dat'' \<mapsto> block_C007] ''cars.dat''
      (ascii ''C007'') NoFault
    = (Inr True, ([''cars.dat'' \<mapsto> block_C007](''cars.dat'' \<mapsto>
        concat ([block_C007][0 := block_C007_deleted])))(''cars.dat'' @ ''.tmp'' := None))"
    by (rule CarRepository_mark_deleted_found[where content = block_C007
          and c = "car_C007\<lparr>brand := ascii ''Mercedes-Benz Vans ''\<rparr>"])
      (simp_all add: r Car_matches_C007 Car_unpack_C007 Car_pack_C007_deleted)
  show "fst (CarRepository_mark_deleted [''cars.dat'' \<mapsto> block_C007] ''cars.dat''
            (ascii ''C007'') NoFault) = Inr True"
    unfolding m by simp
  have "iterate_raw CAR_RECORD_SIZE block_C007_deleted = [block_C007_deleted]"
    by (simp add: iterate_raw_single CAR_RECORD_SIZE_def length_block_C007_deleted)
  then show "CarRepository_all
        (snd (CarRepository_mark_deleted [''cars.dat'' \<mapsto> block_C007] ''cars.dat''
               (ascii ''C007'') NoFault)) ''cars.dat''
     = Inr [car_C007\<lparr>brand := ascii ''Mercedes-Benz Vans'', status := ascii ''Deleted''\<rparr>]"
    unfolding m
    by (simp add: CarRepository_all_def read_all_raw_def and_then_def Car_unpack_C007_deleted)
  show "ascii ''Mercedes-Benz Vans'' \<noteq> ascii ''Mercedes-Benz Vans ''"
    by (simp add: ascii_def)
qed

declare bit_length.simps [simp del]

lemma bit_length_numeral:
  "bit_length (numeral k) = Suc (bit_length (numeral k div 2))"
  by (subst bit_length.simps) simp

lemma bit_length_0: "bit_length 0 = 0"
  by (subst bit_length.simps) simp

lemma bit_length_1: "bit_length 1 = 1"
  by (subst bit_length.simps) (simp add: bit_length_0)

lemmas eval_f64 = f64_round_def f64_signed_def f64_of_int_def f64_mul_def f64_is_nan_def
  f64_is_inf_def f64_is_zero_def f64_exponent_def f64_fraction_def f64_sig_def f64_ex_def
  f64_sign_def round_half_even_def est_cost_def and_then_def bit_length_numeral
  bit_length_0 bit_length_1 Let_def

lemmas eval_date = parse_date_def match_char_def ascii_digit_def new_date_def
  days_in_month_def is_leap_def days_before_year_def days_before_month_def
  date_diff_days_def and_then_def ascii_def




















text \<open>
  C9. Whatever the table of decimal digits, as long as it has the ASCII digits, the
  days from 2025-09-20 to 2025-09-25 count 6, both ends included. The double 2500.00
  has the bits \<open>0x40A3880000000000\<close>, the cost of 6 days at this rate is the double
  of the bits \<open>0x40CD4C0000000000\<close>, and that is the double 15000.00: the product is
  exact.
\<close>

theorem contract_cost_scenario:
  "extends_ascii dv \<longrightarrow>
     date_diff_days dv (ascii ''2025-09-20'') (ascii ''2025-09-25'') = Inr 6
     \<and> f64_of_int 2500 = Inr 0x40A3880000000000
     \<and> est_cost 6 0x40A3880000000000 = Inr 0x40CD4C0000000000
     \<and> f64_of_int 15000 = Inr 0x40CD4C0000000000"
proof (intro impI conjI)
  assume "extends_ascii dv"
  then have d: "dv 48 = Some 0" "dv 50 = Some 2" "dv 53 = Some 5" "dv 57 = Some 9"
    by (simp_all add: extends_ascii_def)
  show "date_diff_days dv (ascii ''2025-09-20'') (ascii ''2025-09-25'') = Inr 6"
    by (simp add: eval_date d)
  show "f64_of_int 2500 = Inr 0x40A3880000000000"
    by (simp add: eval_f64)
  show "est_cost 6 0x40A3880000000000 = Inr 0x40CD4C0000000000"
    by (simp add: eval_f64)
  show "f64_of_int 15000 = Inr 0x40CD4C0000000000"
    by (simp add: eval_f64)
qed

theorem contract_cost_scenario_witness:
  "extends_ascii ascii_decimal
   \<and> date_diff_days ascii_decimal (ascii ''2025-09-20'') (ascii ''2025-09-25'') = Inr 6
   \<and> est_cost 6 0x40A3880000000000 = Inr 0x40CD4C0000000000"
proof -
  have e: "extends_ascii ascii_decimal"
    by (simp add: extends_ascii_def ascii_decimal_def)
  then show ?thesis
    using contract_cost_scenario[of ascii_decimal] by simp
qed



end
